theory Spec2Isabelle
  imports Main "HOL-Library.AList"
begin

section \<open>Grid simulation model (types/game.ts)\<close>

text \<open>
  Coordinates are JavaScript numbers that only ever hold small integers; they are
  modelled as \<open>int\<close>. The field \<open>id\<close> of \<open>Player\<close> and of \<open>GameState\<close> clashes with
  the identity function of HOL and is written \<open>id_player\<close> and \<open>id_game\<close>.
\<close>

record Position =
  x :: int
  y :: int

datatype Direction = UP | DOWN | LEFT | RIGHT

record Snake =
  segments :: "Position list"
  direction :: Direction
  nextDirection :: Direction
  isAlive :: bool

record Player =
  id_player :: string
  socketId :: string
  username :: string
  snake :: Snake
  isReady :: bool

datatype GameStatus = WAITING | READY | PLAYING | FINISHED

record GridSize =
  width :: int
  height :: int

text \<open>
  \<open>players\<close> is a JavaScript \<open>Map\<close>: keys are unique and iteration follows insertion
  order, so it is an association list; \<open>Map.set\<close> is \<open>AList.update\<close> (an existing key
  keeps its place, a new key goes to the end) and \<open>Map.delete\<close> is \<open>AList.delete\<close>.
  The optional \<open>winnerId\<close> is an \<open>option\<close>.
\<close>

record GameState =
  id_game :: string
  players :: "(string \<times> Player) list"
  apples :: "Position list"
  gridSize :: GridSize
  status :: GameStatus
  tickRate :: int
  winnerId :: "string option"

section \<open>Process-wide state\<close>

record WaitingEntry =
  playerId :: string
  socketId_w :: string
  username_w :: string

text \<open>
  The two module-level stores, \<open>activeGames\<close> of the game service and
  \<open>waitingPlayers\<close> of the matchmaking service, together with the number of calls
  made to \<open>Math.random\<close> so far. The random source itself is a parameter
  \<open>rand :: nat \<Rightarrow> int \<Rightarrow> int\<close> of the operations that draw: \<open>rand k m\<close> is the integer
  that \<open>Math.floor(Math.random() * m)\<close> evaluates to when its call of \<open>Math.random\<close> is
  the \<open>k\<close>-th one. The double-precision product and its floor are thus taken from the
  source as they are and not recomputed in exact arithmetic.
\<close>

record World =
  activeGames :: "string \<rightharpoonup> GameState"
  waitingPlayers :: "WaitingEntry list"
  randomCalls :: nat

section \<open>Game service (services/gameService.ts)\<close>

definition GRID_WIDTH :: int where "GRID_WIDTH = 20"
definition GRID_HEIGHT :: int where "GRID_HEIGHT = 20"
definition TICK_RATE :: int where "TICK_RATE = 200"
definition INITIAL_SNAKE_LENGTH :: nat where "INITIAL_SNAKE_LENGTH = 4"

definition newGame :: "string \<Rightarrow> GameState" where
  "newGame gameId =
     \<lparr> id_game = gameId, players = [], apples = [],
       gridSize = \<lparr> width = GRID_WIDTH, height = GRID_HEIGHT \<rparr>,
       status = WAITING, tickRate = TICK_RATE, winnerId = None \<rparr>"

definition createGame :: "string \<Rightarrow> World \<Rightarrow> GameState \<times> World" where
  "createGame gameId w =
     (let game = newGame gameId
      in (game, w\<lparr>activeGames := (activeGames w)(gameId \<mapsto> game)\<rparr>))"

definition getGame :: "string \<Rightarrow> World \<Rightarrow> GameState option" where
  "getGame gameId w = activeGames w gameId"

definition deleteGame :: "string \<Rightarrow> World \<Rightarrow> World" where
  "deleteGame gameId w = w\<lparr>activeGames := (activeGames w)(gameId := None)\<rparr>"

definition createInitialSnake :: "nat \<Rightarrow> Snake" where
  "createInitialSnake playerNumber =
     (if playerNumber = 0 then
        (let startX = GRID_WIDTH div 4; startY = GRID_HEIGHT div 4
         in \<lparr> segments = map (\<lambda>i. \<lparr> x = startX - int i, y = startY \<rparr>) [0..<INITIAL_SNAKE_LENGTH],
              direction = RIGHT, nextDirection = RIGHT, isAlive = True \<rparr>)
      else
        (let startX = (GRID_WIDTH * 3) div 4; startY = (GRID_HEIGHT * 3) div 4
         in \<lparr> segments = map (\<lambda>i. \<lparr> x = startX + int i, y = startY \<rparr>) [0..<INITIAL_SNAKE_LENGTH],
              direction = LEFT, nextDirection = LEFT, isAlive = True \<rparr>))"

definition addPlayer ::
  "string \<Rightarrow> string \<Rightarrow> string \<Rightarrow> string option \<Rightarrow> World \<Rightarrow> Player option \<times> World" where
  "addPlayer gameId pid sid uname w =
     (case activeGames w gameId of
        None \<Rightarrow> (None, w)
      | Some game \<Rightarrow>
          if length (players game) \<ge> 2 then (None, w)
          else
            (let playerNumber = length (players game);
                 player = \<lparr> id_player = pid, socketId = sid,
                            username = (case uname of None \<Rightarrow> [] | Some u \<Rightarrow> u),
                            snake = createInitialSnake playerNumber, isReady = False \<rparr>;
                 game' = game\<lparr>players := AList.update pid player (players game)\<rparr>
             in (Some player, w\<lparr>activeGames := (activeGames w)(gameId \<mapsto> game')\<rparr>)))"

definition removePlayer :: "string \<Rightarrow> string \<Rightarrow> World \<Rightarrow> World" where
  "removePlayer gameId pid w =
     (case activeGames w gameId of
        None \<Rightarrow> w
      | Some game \<Rightarrow>
          (let game' = game\<lparr>players := AList.delete pid (players game)\<rparr>;
               w' = w\<lparr>activeGames := (activeGames w)(gameId \<mapsto> game')\<rparr>
           in if length (players game') = 0 then deleteGame gameId w' else w'))"

subsection \<open>Geometry helpers\<close>

definition isOppositeDirection :: "Direction \<Rightarrow> Direction \<Rightarrow> bool" where
  "isOppositeDirection dir1 dir2 \<longleftrightarrow>
     (dir1 = UP \<and> dir2 = DOWN) \<or> (dir1 = DOWN \<and> dir2 = UP) \<or>
     (dir1 = LEFT \<and> dir2 = RIGHT) \<or> (dir1 = RIGHT \<and> dir2 = LEFT)"

fun getNextPosition :: "Position \<Rightarrow> Direction \<Rightarrow> Position" where
  "getNextPosition pos UP = \<lparr> x = x pos, y = y pos - 1 \<rparr>"
| "getNextPosition pos DOWN = \<lparr> x = x pos, y = y pos + 1 \<rparr>"
| "getNextPosition pos LEFT = \<lparr> x = x pos - 1, y = y pos \<rparr>"
| "getNextPosition pos RIGHT = \<lparr> x = x pos + 1, y = y pos \<rparr>"

definition isOutOfBounds :: "Position \<Rightarrow> GridSize \<Rightarrow> bool" where
  "isOutOfBounds pos gs \<longleftrightarrow>
     x pos < 0 \<or> x pos \<ge> width gs \<or> y pos < 0 \<or> y pos \<ge> height gs"

definition samePos :: "Position \<Rightarrow> Position \<Rightarrow> bool" where
  "samePos a b \<longleftrightarrow> x a = x b \<and> y a = y b"

definition collidesWithSnake :: "Position \<Rightarrow> Position list \<Rightarrow> bool" where
  "collidesWithSnake pos segs = list_ex (\<lambda>segment. samePos segment pos) segs"

subsection \<open>Apple spawning\<close>

text \<open>
  The set of strings \<open>"x,y"\<close> built by \<open>spawnApple\<close> is a set of coordinate pairs: the
  decimal rendering of a pair of integers is injective.
\<close>

definition posKey :: "Position \<Rightarrow> int \<times> int" where
  "posKey p = (x p, y p)"

definition occupiedPositions :: "GameState \<Rightarrow> (int \<times> int) list" where
  "occupiedPositions game =
     concat (map (\<lambda>(k, player). map posKey (segments (snake player))) (players game))
     @ map posKey (apples game)"

definition maxAttempts :: nat where "maxAttempts = 100"

text \<open>
  The rejection-sampling loop. Each attempt makes two calls to \<open>Math.random\<close>, the
  \<open>n\<close>-th for \<open>x\<close> and the one after it for \<open>y\<close>; the result is the game and the number of
  calls made.
\<close>

function spawnLoop ::
  "(nat \<Rightarrow> int \<Rightarrow> int) \<Rightarrow> (int \<times> int) list \<Rightarrow> GameState \<Rightarrow> nat \<Rightarrow> nat \<Rightarrow> GameState \<times> nat" where
  "spawnLoop rand occ game attempts n =
     (if attempts < maxAttempts then
        (let cx = rand n (width (gridSize game));
             cy = rand (n + 1) (height (gridSize game))
         in if (cx, cy) \<notin> set occ
            then (game\<lparr>apples := apples game @ [\<lparr> x = cx, y = cy \<rparr>]\<rparr>, n + 2)
            else spawnLoop rand occ game (attempts + 1) (n + 2))
      else (game, n))"
  by pat_completeness auto
termination
  by (relation "measure (\<lambda>(rand, occ, game, attempts, n). maxAttempts - attempts)") auto

declare spawnLoop.simps [simp del]

definition spawnAppleIn :: "(nat \<Rightarrow> int \<Rightarrow> int) \<Rightarrow> GameState \<Rightarrow> nat \<Rightarrow> GameState \<times> nat" where
  "spawnAppleIn rand game n = spawnLoop rand (occupiedPositions game) game 0 n"

definition spawnApple :: "(nat \<Rightarrow> int \<Rightarrow> int) \<Rightarrow> string \<Rightarrow> World \<Rightarrow> World" where
  "spawnApple rand gameId w =
     (case activeGames w gameId of
        None \<Rightarrow> w
      | Some game \<Rightarrow>
          (let (game', n') = spawnAppleIn rand game (randomCalls w)
           in w\<lparr>activeGames := (activeGames w)(gameId \<mapsto> game'), randomCalls := n'\<rparr>))"

definition startGame :: "(nat \<Rightarrow> int \<Rightarrow> int) \<Rightarrow> string \<Rightarrow> World \<Rightarrow> World" where
  "startGame rand gameId w =
     (case activeGames w gameId of
        None \<Rightarrow> w
      | Some game \<Rightarrow>
          if status game \<noteq> WAITING then w
          else
            (let w1 = w\<lparr>activeGames := (activeGames w)(gameId \<mapsto> game\<lparr>status := PLAYING\<rparr>)\<rparr>;
                 w2 = spawnApple rand gameId w1
             in spawnApple rand gameId w2))"

subsection \<open>Direction changes\<close>

definition changeDirection :: "string \<Rightarrow> string \<Rightarrow> Direction \<Rightarrow> World \<Rightarrow> World" where
  "changeDirection gameId pid newDirection w =
     (case activeGames w gameId of
        None \<Rightarrow> w
      | Some game \<Rightarrow>
          if status game \<noteq> PLAYING then w
          else
            (case map_of (players game) pid of
               None \<Rightarrow> w
             | Some player \<Rightarrow>
                 if \<not> isAlive (snake player) then w
                 else if isOppositeDirection (direction (snake player)) newDirection then w
                 else
                   (let player' = player\<lparr>snake := (snake player)\<lparr>nextDirection := newDirection\<rparr>\<rparr>;
                        game' = game\<lparr>players := AList.update pid player' (players game)\<rparr>
                    in w\<lparr>activeGames := (activeGames w)(gameId \<mapsto> game')\<rparr>)))"

subsection \<open>The tick\<close>

text \<open>
  The loop of \<open>tick\<close> mutates each player object in place while it walks the map. The
  map itself is not restructured during a tick, so the walk is over the positions
  \<open>0, 1, ...\<close> of the association list and a mutation of the \<open>i\<close>-th player's snake is an
  update of the \<open>i\<close>-th entry. Every read of another player therefore sees what earlier
  iterations of the same tick have already written.
\<close>

definition setSnake :: "nat \<Rightarrow> Snake \<Rightarrow> GameState \<Rightarrow> GameState" where
  "setSnake i s game =
     game\<lparr>players := (players game)[i := (fst (players game ! i), (snd (players game ! i))\<lparr>snake := s\<rparr>)]\<rparr>"

fun findIndex :: "('a \<Rightarrow> bool) \<Rightarrow> 'a list \<Rightarrow> nat option" where
  "findIndex P [] = None"
| "findIndex P (a # as) =
     (if P a then Some 0 else map_option Suc (findIndex P as))"

definition splice1 :: "nat \<Rightarrow> 'a list \<Rightarrow> 'a list" where
  "splice1 i xs = take i xs @ drop (Suc i) xs"

definition hitsOtherPlayer :: "Player \<Rightarrow> Position \<Rightarrow> GameState \<Rightarrow> bool" where
  "hitsOtherPlayer player newHead game =
     list_ex (\<lambda>(k, otherPlayer).
        id_player otherPlayer \<noteq> id_player player \<and> isAlive (snake otherPlayer) \<and>
        collidesWithSnake newHead (segments (snake otherPlayer))) (players game)"

text \<open>One iteration of the loop over the players: the body for the \<open>i\<close>-th player.\<close>

definition tickPlayer :: "(nat \<Rightarrow> int \<Rightarrow> int) \<Rightarrow> nat \<Rightarrow> GameState \<times> nat \<Rightarrow> GameState \<times> nat" where
  "tickPlayer rand i gn =
     (let game = fst gn; n = snd gn; player = snd (players game ! i)
      in if \<not> isAlive (snake player) then (game, n)
         else
           (let s1 = (snake player)\<lparr>direction := nextDirection (snake player)\<rparr>;
                g1 = setSnake i s1 game
            in case segments s1 of
                 [] \<Rightarrow> (g1, n)
               | head # rest \<Rightarrow>
                   (let newHead = getNextPosition head (direction s1)
                    in if isOutOfBounds newHead (gridSize g1)
                       then (setSnake i (s1\<lparr>isAlive := False\<rparr>) g1, n)
                       else if collidesWithSnake newHead (segments s1)
                       then (setSnake i (s1\<lparr>isAlive := False\<rparr>) g1, n)
                       else if hitsOtherPlayer player newHead g1
                       then (setSnake i (s1\<lparr>isAlive := False\<rparr>) g1, n)
                       else
                         (case findIndex (\<lambda>apple. x apple = x newHead \<and> y apple = y newHead) (apples g1) of
                            Some appleIndex \<Rightarrow>
                              (let g2 = g1\<lparr>apples := splice1 appleIndex (apples g1)\<rparr>;
                                   (g3, n') = spawnAppleIn rand g2 n
                               in (setSnake i (s1\<lparr>segments := newHead # segments s1\<rparr>) g3, n'))
                          | None \<Rightarrow>
                              (setSnake i (s1\<lparr>segments := butlast (newHead # segments s1)\<rparr>) g1, n)))))"

definition tickPlayers :: "(nat \<Rightarrow> int \<Rightarrow> int) \<Rightarrow> GameState \<Rightarrow> nat \<Rightarrow> GameState \<times> nat" where
  "tickPlayers rand game n = fold (tickPlayer rand) [0..<length (players game)] (game, n)"

definition alivePlayersOf :: "GameState \<Rightarrow> Player list" where
  "alivePlayersOf game = filter (\<lambda>p. isAlive (snake p)) (map snd (players game))"

definition checkGameOver :: "GameState \<Rightarrow> GameState" where
  "checkGameOver game =
     (case alivePlayersOf game of
        [] \<Rightarrow> game\<lparr>status := FINISHED\<rparr>
      | [p] \<Rightarrow> game\<lparr>winnerId := Some (id_player p), status := FINISHED\<rparr>
      | _ \<Rightarrow> game)"

definition tickGame :: "(nat \<Rightarrow> int \<Rightarrow> int) \<Rightarrow> GameState \<Rightarrow> nat \<Rightarrow> GameState \<times> nat" where
  "tickGame rand game n =
     (let (game', n') = tickPlayers rand game n in (checkGameOver game', n'))"

definition tick :: "(nat \<Rightarrow> int \<Rightarrow> int) \<Rightarrow> string \<Rightarrow> World \<Rightarrow> bool \<times> World" where
  "tick rand gameId w =
     (case activeGames w gameId of
        None \<Rightarrow> (False, w)
      | Some game \<Rightarrow>
          if status game \<noteq> PLAYING then (False, w)
          else
            (let (game', n') = tickGame rand game (randomCalls w)
             in (True, w\<lparr>activeGames := (activeGames w)(gameId \<mapsto> game'), randomCalls := n'\<rparr>)))"

section \<open>Matchmaking service (services/matchmakingService.ts)\<close>

text \<open>
  \<open>uuidv4()\<close> is a call into a library; the identifier it returns is the parameter
  \<open>gameId\<close> of \<open>findMatch\<close>.
\<close>

definition removeEntry :: "string \<Rightarrow> WaitingEntry list \<Rightarrow> WaitingEntry list" where
  "removeEntry pid q =
     (case findIndex (\<lambda>p. playerId p = pid) q of
        Some existingIndex \<Rightarrow> splice1 existingIndex q
      | None \<Rightarrow> q)"

definition findMatch ::
  "string \<Rightarrow> string \<Rightarrow> string \<Rightarrow> string option \<Rightarrow> World \<Rightarrow> string option \<times> World" where
  "findMatch gameId pid sid uname w =
     (let q = removeEntry pid (waitingPlayers w)
      in case q of
           opponent # rest \<Rightarrow>
             (let w1 = w\<lparr>waitingPlayers := rest\<rparr>;
                  (game, w2) = createGame gameId w1;
                  (p0, w3) = addPlayer gameId (playerId opponent) (socketId_w opponent)
                               (Some (username_w opponent)) w2;
                  (p1, w4) = addPlayer gameId pid sid uname w3
              in (Some gameId, w4))
         | [] \<Rightarrow>
             (None, w\<lparr>waitingPlayers :=
                        q @ [\<lparr> playerId = pid, socketId_w = sid,
                               username_w = (case uname of None \<Rightarrow> [] | Some u \<Rightarrow> u) \<rparr>]\<rparr>))"

definition leaveQueue :: "string \<Rightarrow> World \<Rightarrow> World" where
  "leaveQueue pid w = w\<lparr>waitingPlayers := removeEntry pid (waitingPlayers w)\<rparr>"

definition getQueueSize :: "World \<Rightarrow> nat" where
  "getQueueSize w = length (waitingPlayers w)"

definition isInQueue :: "string \<Rightarrow> World \<Rightarrow> bool" where
  "isInQueue pid w = list_ex (\<lambda>p. playerId p = pid) (waitingPlayers w)"

section \<open>Derived notions\<close>

text \<open>
  The state of the loop of \<open>tick\<close> when it reaches the \<open>i\<close>-th player: the first \<open>i\<close>
  players have been processed, the others not yet.
\<close>

definition gameBefore :: "(nat \<Rightarrow> int \<Rightarrow> int) \<Rightarrow> nat \<Rightarrow> GameState \<Rightarrow> nat \<Rightarrow> GameState \<times> nat" where
  "gameBefore rand i game n = fold (tickPlayer rand) [0..<i] (game, n)"

text \<open>The head \<open>tick\<close> computes for a snake that has a segment.\<close>

definition newHeadOf :: "Snake \<Rightarrow> Position" where
  "newHeadOf s = getNextPosition (hd (segments s)) (nextDirection s)"

text \<open>
  The snake an iteration of the loop leaves behind, as a function of the player and
  of the state the iteration starts in; \<open>tickPlayer_players\<close> proves that this is what
  \<open>tickPlayer\<close> writes.
\<close>

definition snakeAfter :: "GameState \<Rightarrow> Player \<Rightarrow> Snake" where
  "snakeAfter game player =
     (if \<not> isAlive (snake player) then snake player
      else
        (let s1 = (snake player)\<lparr>direction := nextDirection (snake player)\<rparr>
         in case segments s1 of
              [] \<Rightarrow> s1
            | head # rest \<Rightarrow>
                (let newHead = getNextPosition head (direction s1)
                 in if isOutOfBounds newHead (gridSize game) \<or> newHead \<in> set (segments s1) \<or>
                       hitsOtherPlayer player newHead game
                    then s1\<lparr>isAlive := False\<rparr>
                    else if newHead \<in> set (apples game)
                    then s1\<lparr>segments := newHead # segments s1\<rparr>
                    else s1\<lparr>segments := butlast (newHead # segments s1)\<rparr>)))"

text \<open>
  The cells under the segments of the living snakes, with repetitions; no cell is
  occupied twice when the list is distinct.
\<close>

definition cellsOf :: "(string \<times> Player) list \<Rightarrow> Position list" where
  "cellsOf ps = concat (map (\<lambda>(k, p). segments (snake p)) (filter (\<lambda>(k, p). isAlive (snake p)) ps))"

definition noOverlap :: "GameState \<Rightarrow> bool" where
  "noOverlap game = distinct (cellsOf (players game))"

text \<open>
  The players of a match are stored under their own identifier, so no two entries of
  the map carry the same \<open>id\<close>.
\<close>

definition idsDistinct :: "GameState \<Rightarrow> bool" where
  "idsDistinct game = distinct (map (\<lambda>(k, p). id_player p) (players game))"

definition aliveFlags :: "GameState \<Rightarrow> bool list" where
  "aliveFlags game = map (\<lambda>(k, p). isAlive (snake p)) (players game)"

definition segmentLists :: "GameState \<Rightarrow> Position list list" where
  "segmentLists game = map (\<lambda>(k, p). segments (snake p)) (players game)"

text \<open>
  Every player is stored under its own identifier, each key once; and a match has no
  winner before it is finished. Both hold in every state the operations of the two
  services lead to from the empty state (\<open>reachable\<close>, with all draws taken from one
  random source).
\<close>

definition wellKeyed :: "GameState \<Rightarrow> bool" where
  "wellKeyed game \<longleftrightarrow>
     distinct (map fst (players game)) \<and> list_all (\<lambda>(k, p). id_player p = k) (players game)"

definition gameInv :: "GameState \<Rightarrow> bool" where
  "gameInv game \<longleftrightarrow> wellKeyed game \<and> (status game \<noteq> FINISHED \<longrightarrow> winnerId game = None)"

definition worldInv :: "World \<Rightarrow> bool" where
  "worldInv w \<longleftrightarrow>
     distinct (map playerId (waitingPlayers w)) \<and>
     (\<forall>gameId game. activeGames w gameId = Some game \<longrightarrow> gameInv game)"

inductive reachable :: "(nat \<Rightarrow> int \<Rightarrow> int) \<Rightarrow> World \<Rightarrow> bool" for rand :: "nat \<Rightarrow> int \<Rightarrow> int" where
  initial: "reachable rand \<lparr> activeGames = Map.empty, waitingPlayers = [], randomCalls = 0 \<rparr>"
| createGame: "reachable rand w \<Longrightarrow> reachable rand (snd (createGame gameId w))"
| deleteGame: "reachable rand w \<Longrightarrow> reachable rand (deleteGame gameId w)"
| addPlayer: "reachable rand w \<Longrightarrow> reachable rand (snd (addPlayer gameId pid sid uname w))"
| removePlayer: "reachable rand w \<Longrightarrow> reachable rand (removePlayer gameId pid w)"
| startGame: "reachable rand w \<Longrightarrow> reachable rand (startGame rand gameId w)"
| changeDirection: "reachable rand w \<Longrightarrow> reachable rand (changeDirection gameId pid d w)"
| tick: "reachable rand w \<Longrightarrow> reachable rand (snd (tick rand gameId w))"
| findMatch: "reachable rand w \<Longrightarrow> reachable rand (snd (findMatch gameId pid sid uname w))"
| leaveQueue: "reachable rand w \<Longrightarrow> reachable rand (leaveQueue pid w)"

section \<open>Definitions that follow the specification's words\<close>

text \<open>
  The specification speaks of the exact opposite of a direction; the code only has the
  test \<open>isOppositeDirection\<close>. \<open>oppositeOf\<close> is the specification's notion, compared
  with the code's test in \<open>isOppositeDirection_iff\<close>.
\<close>

definition oppositeOf :: "Direction \<Rightarrow> Direction" where
  "oppositeOf d = (case d of UP \<Rightarrow> DOWN | DOWN \<Rightarrow> UP | LEFT \<Rightarrow> RIGHT | RIGHT \<Rightarrow> LEFT)"

section \<open>Concrete states\<close>

definition entryOf :: "string \<Rightarrow> WaitingEntry" where
  "entryOf pid = \<lparr> playerId = pid, socketId_w = pid, username_w = [] \<rparr>"

definition entryPlayer :: "WaitingEntry \<Rightarrow> nat \<Rightarrow> Player" where
  "entryPlayer e playerNumber =
     \<lparr> id_player = playerId e, socketId = socketId_w e, username = username_w e,
       snake = createInitialSnake playerNumber, isReady = False \<rparr>"

definition queueWorld :: "WaitingEntry list \<Rightarrow> World" where
  "queueWorld q = \<lparr> activeGames = Map.empty, waitingPlayers = q, randomCalls = 0 \<rparr>"

definition gameWorld :: "GameState \<Rightarrow> World" where
  "gameWorld game = \<lparr> activeGames = [id_game game \<mapsto> game], waitingPlayers = [], randomCalls = 0 \<rparr>"

definition playerA :: Player where
  "playerA = entryPlayer (entryOf ''A'') 0"

definition playerB :: Player where
  "playerB = entryPlayer (entryOf ''B'') 1"

text \<open>The match two calls of \<open>addPlayer\<close> build, after it has been started.\<close>

definition playingGame :: GameState where
  "playingGame =
     (newGame ''g'')\<lparr>players := [(''A'', playerA), (''B'', playerB)], status := PLAYING\<rparr>"

definition withSnake :: "Player \<Rightarrow> Position list \<Rightarrow> Direction \<Rightarrow> Player" where
  "withSnake pl segs d =
     pl\<lparr>snake := \<lparr> segments = segs, direction = d, nextDirection = d, isAlive = True \<rparr>\<rparr>"

text \<open>Four cells from \<open>(cx, cy)\<close> downwards, and four cells from \<open>(cx, cy)\<close> to the left.\<close>

definition columnDown :: "int \<Rightarrow> int \<Rightarrow> Position list" where
  "columnDown cx cy = map (\<lambda>i. \<lparr> x = cx, y = cy + int i \<rparr>) [0..<4]"

definition rowLeft :: "int \<Rightarrow> int \<Rightarrow> Position list" where
  "rowLeft cx cy = map (\<lambda>i. \<lparr> x = cx - int i, y = cy \<rparr>) [0..<4]"

text \<open>
  \<open>A\<close> lies on \<open>(5,5)..(2,5)\<close> and moves right; \<open>B\<close> comes up the column \<open>x = 2\<close> with
  its head on \<open>(2,6)\<close>, so its next head is the cell of \<open>A\<close>'s tail.
\<close>

definition crossingGame :: GameState where
  "crossingGame =
     playingGame\<lparr>players := [(''A'', playerA), (''B'', withSnake playerB (columnDown 2 6) UP)]\<rparr>"

text \<open>
  \<open>B\<close> comes up the column \<open>x = 6\<close> with its head on \<open>(6,6)\<close>: its next head is
  \<open>(6,5)\<close>, which is free before the tick and is where \<open>A\<close>'s head moves.
\<close>

definition headOnGame :: GameState where
  "headOnGame =
     playingGame\<lparr>players := [(''A'', playerA), (''B'', withSnake playerB (columnDown 6 6) UP)]\<rparr>"

text \<open>\<open>A\<close> has its head on the right edge and moves right.\<close>

definition wallGame :: GameState where
  "wallGame =
     playingGame\<lparr>players := [(''A'', withSnake playerA (rowLeft 19 5) RIGHT), (''B'', playerB)]\<rparr>"

text \<open>Both snakes have their head on an edge and move off the grid.\<close>

definition bothWallGame :: GameState where
  "bothWallGame =
     playingGame\<lparr>players := [(''A'', withSnake playerA (rowLeft 19 5) RIGHT),
                              (''B'', withSnake playerB (columnDown 15 0) UP)]\<rparr>"

text \<open>The scenario of the specification: an apple on \<open>(6,5)\<close>, right in front of \<open>A\<close>.\<close>

definition appleGame :: GameState where
  "appleGame = playingGame\<lparr>apples := [\<lparr> x = 6, y = 5 \<rparr>]\<rparr>"

text \<open>
  Random sources, given by the floored value of each draw. \<open>noDraws\<close> always gives
  0. \<open>drawsCentre\<close> makes every attempt pick the cell \<open>(10,10)\<close>. \<open>drawsLeftOfB\<close>
  makes the first attempt pick \<open>(14,15)\<close>, the cell in front of \<open>B\<close>, and the later
  ones \<open>(10,10)\<close>. \<open>drawsAhead\<close> makes the attempts pick \<open>(6,5)\<close>, except the second
  attempt (calls 2 and 3), which picks \<open>(10,10)\<close>.
\<close>

definition noDraws :: "nat \<Rightarrow> int \<Rightarrow> int" where
  "noDraws k m = 0"

definition drawsCentre :: "nat \<Rightarrow> int \<Rightarrow> int" where
  "drawsCentre k m = 10"

definition drawsLeftOfB :: "nat \<Rightarrow> int \<Rightarrow> int" where
  "drawsLeftOfB k m = (if k = 0 then 14 else if k = 1 then 15 else 10)"

definition drawsAhead :: "nat \<Rightarrow> int \<Rightarrow> int" where
  "drawsAhead k m = (if k = 2 \<or> k = 3 then 10 else if even k then 6 else 5)"

text \<open>
  A run from the empty state: \<open>A\<close> and \<open>B\<close> ask for a match, the match is started
  and ticks once, all draws coming from \<open>drawsAhead\<close>.
\<close>

definition matchedWorld :: World where
  "matchedWorld =
     snd (findMatch ''g'' ''B'' ''sB'' None (snd (findMatch ''g'' ''A'' ''sA'' None (queueWorld []))))"

definition startedWorld :: World where
  "startedWorld = startGame drawsAhead ''g'' matchedWorld"

definition tickedWorld :: World where
  "tickedWorld = snd (tick drawsAhead ''g'' startedWorld)"


section \<open>The tick guard\<close>

text \<open>
  C9. \<open>tick\<close> returns \<open>false\<close> and leaves the whole state unchanged (the registry, the
  queue and the random source) when the match is absent from the registry or its
  status is not \<open>PLAYING\<close>.
\<close>

theorem tick_noop_unless_playing:
  "(activeGames w gameId = None \<or> (\<exists>game. activeGames w gameId = Some game \<and> status game \<noteq> PLAYING))
   \<longrightarrow> tick rand gameId w = (False, w)"
  by (auto simp: tick_def)

theorem tick_noop_unless_playing_witness:
  "activeGames (queueWorld []) ''g'' = None \<and>
   tick noDraws ''g'' (queueWorld []) = (False, queueWorld []) \<and>
   activeGames (gameWorld (newGame ''g'')) ''g'' = Some (newGame ''g'') \<and>
   status (newGame ''g'') \<noteq> PLAYING \<and>
   tick noDraws ''g'' (gameWorld (newGame ''g'')) = (False, gameWorld (newGame ''g''))"
proof -
  have h1: "activeGames (queueWorld []) ''g'' = None"
    by (simp add: queueWorld_def)
  have h2: "activeGames (gameWorld (newGame ''g'')) ''g'' = Some (newGame ''g'')"
    by (simp add: gameWorld_def newGame_def)
  have h3: "status (newGame ''g'') \<noteq> PLAYING"
    by (simp add: newGame_def)
  from tick_noop_unless_playing [where w = "queueWorld []" and gameId = "''g''" and rand = noDraws]
       tick_noop_unless_playing [where w = "gameWorld (newGame ''g'')" and gameId = "''g''" and rand = noDraws]
       h1 h2 h3
  show ?thesis by simp
qed

section \<open>Direction changes\<close>

lemma isOppositeDirection_iff: "isOppositeDirection d1 d2 \<longleftrightarrow> d2 = oppositeOf d1"
  by (cases d1; cases d2) (simp_all add: isOppositeDirection_def oppositeOf_def)

text \<open>
  C5. For a living snake of a match in \<open>PLAYING\<close>, \<open>changeDirection\<close> with the exact
  opposite of the snake's current direction changes nothing at all; in particular the
  snake's \<open>nextDirection\<close> is what it was.
\<close>

theorem changeDirection_reversal_dropped:
  assumes "activeGames w gameId = Some game" and "status game = PLAYING"
    and "map_of (players game) pid = Some player" and "isAlive (snake player)"
  shows "changeDirection gameId pid (oppositeOf (direction (snake player))) w = w"
  using assms by (simp add: changeDirection_def isOppositeDirection_iff)

theorem changeDirection_reversal_dropped_witness:
  "activeGames (gameWorld playingGame) ''g'' = Some playingGame \<and> status playingGame = PLAYING \<and>
   map_of (players playingGame) ''A'' = Some (snd (hd (players playingGame))) \<and>
   isAlive (snake (snd (hd (players playingGame)))) \<and>
   changeDirection ''g'' ''A'' LEFT (gameWorld playingGame) = gameWorld playingGame"
proof -
  have h1: "activeGames (gameWorld playingGame) ''g'' = Some playingGame"
    by (simp add: gameWorld_def playingGame_def newGame_def)
  have h2: "status playingGame = PLAYING"
    by (simp add: playingGame_def)
  have h3: "map_of (players playingGame) ''A'' = Some (snd (hd (players playingGame)))"
    by (simp add: playingGame_def)
  have h4: "isAlive (snake (snd (hd (players playingGame))))"
    by (simp add: playingGame_def playerA_def entryPlayer_def createInitialSnake_def)
  have d: "oppositeOf (direction (snake (snd (hd (players playingGame))))) = LEFT"
    by (simp add: playingGame_def playerA_def entryPlayer_def createInitialSnake_def oppositeOf_def)
  from changeDirection_reversal_dropped [OF h1 h2 h3 h4] h1 h2 h3 h4 d
  show ?thesis by simp
qed

section \<open>The registry\<close>

text \<open>
  C7 as stated fails: \<open>createGame\<close> has no test for an existing identifier and
  overwrites the entry. Here the registry holds a started match with two players
  under \<open>g\<close>, and after \<open>createGame g\<close> the entry is another match.
\<close>

theorem createGame_existing_counterexample:
  "activeGames (gameWorld playingGame) ''g'' = Some playingGame \<and>
   activeGames (snd (createGame ''g'' (gameWorld playingGame))) ''g'' \<noteq> Some playingGame"
  by (simp add: createGame_def gameWorld_def playingGame_def newGame_def Let_def)

text \<open>
  C7, amended. \<open>createGame\<close> never fails: whatever the registry held under the
  identifier, it now holds the match returned, a fresh one in \<open>WAITING\<close> with no
  players, no apples and no winner; every other entry of the registry, the queue and
  the random source are untouched.
\<close>

theorem createGame_replaces:
  "case createGame gameId w of
     (game, w') \<Rightarrow>
       activeGames w' gameId = Some game \<and>
       id_game game = gameId \<and> status game = WAITING \<and> players game = [] \<and> apples game = [] \<and>
       winnerId game = None \<and>
       (\<forall>other. other \<noteq> gameId \<longrightarrow> activeGames w' other = activeGames w other) \<and>
       waitingPlayers w' = waitingPlayers w \<and> randomCalls w' = randomCalls w"
  by (simp add: createGame_def newGame_def Let_def)

theorem createGame_replaces_witness:
  "activeGames (gameWorld playingGame) ''g'' = Some playingGame \<and> ''h'' \<noteq> ''g'' \<and>
   (case createGame ''g'' (gameWorld playingGame) of
     (game, w') \<Rightarrow>
       activeGames w' ''g'' = Some game \<and> status game = WAITING \<and> players game = [] \<and>
       activeGames w' ''h'' = activeGames (gameWorld playingGame) ''h'')"
proof -
  have h1: "activeGames (gameWorld playingGame) ''g'' = Some playingGame"
    by (simp add: gameWorld_def playingGame_def newGame_def)
  have h2: "''h'' \<noteq> ''g''" by simp
  from createGame_replaces [where gameId = "''g''" and w = "gameWorld playingGame"] h1 h2
  show ?thesis by (auto split: prod.splits)
qed

section \<open>Matchmaking\<close>

lemma splice1_0: "splice1 0 (a # as) = as"
  by (simp add: splice1_def)

lemma splice1_Suc: "splice1 (Suc i) (a # as) = a # splice1 i as"
  by (simp add: splice1_def)

lemma removeEntry_Nil: "removeEntry pid [] = []"
  by (simp add: removeEntry_def)

lemma removeEntry_Cons:
  "removeEntry pid (e # q) = (if playerId e = pid then q else e # removeEntry pid q)"
  by (simp add: removeEntry_def splice1_0 splice1_Suc split: option.split)

lemma removeEntry_subset: "set (removeEntry pid q) \<subseteq> set q"
  by (induction q) (auto simp: removeEntry_Nil removeEntry_Cons)

lemma removeEntry_distinct:
  "distinct (map playerId q) \<Longrightarrow> distinct (map playerId (removeEntry pid q))"
proof (induction q)
  case Nil
  then show ?case by (simp add: removeEntry_Nil)
next
  case (Cons e q)
  then show ?case
    using removeEntry_subset [of pid q] by (auto simp: removeEntry_Cons)
qed

lemma removeEntry_absent:
  "distinct (map playerId q) \<Longrightarrow> pid \<notin> playerId ` set (removeEntry pid q)"
  by (induction q) (auto simp: removeEntry_Nil removeEntry_Cons)

lemma removeEntry_id:
  "pid \<notin> playerId ` set q \<Longrightarrow> removeEntry pid q = q"
  by (induction q) (auto simp: removeEntry_Nil removeEntry_Cons)

text \<open>The two outcomes of \<open>findMatch\<close>, once the stale entry is gone.\<close>

lemma findMatch_paired:
  assumes "removeEntry pid (waitingPlayers w) = opponent # rest" and "playerId opponent \<noteq> pid"
  shows "findMatch gameId pid sid uname w =
           (Some gameId,
            w\<lparr>waitingPlayers := rest,
              activeGames := (activeGames w)(gameId \<mapsto>
                (newGame gameId)\<lparr>players :=
                   [(playerId opponent, entryPlayer opponent 0),
                    (pid, entryPlayer \<lparr>playerId = pid, socketId_w = sid,
                            username_w = (case uname of None \<Rightarrow> [] | Some u \<Rightarrow> u)\<rparr> 1)]\<rparr>)\<rparr>)"
  using assms
  by (simp add: findMatch_def createGame_def addPlayer_def newGame_def entryPlayer_def Let_def)

lemma findMatch_queued:
  assumes "removeEntry pid (waitingPlayers w) = []"
  shows "findMatch gameId pid sid uname w =
           (None, w\<lparr>waitingPlayers :=
                      [\<lparr> playerId = pid, socketId_w = sid,
                         username_w = (case uname of None \<Rightarrow> [] | Some u \<Rightarrow> u) \<rparr>]\<rparr>)"
  using assms by (simp add: findMatch_def)

text \<open>
  C6. With the waiting entries \<open>[A, B]\<close>, \<open>A\<close> enqueued first, and a request from a
  player \<open>C\<close> who is not in the queue, \<open>findMatch\<close> returns the new match identifier;
  the match holds \<open>A\<close> as player 0 (the first joiner's snake) and \<open>C\<close> as player 1, and
  \<open>B\<close> is the only entry left in the queue.
\<close>

theorem findMatch_pairs_oldest:
  assumes "waitingPlayers w = [A, B]" and "playerId A \<noteq> C" and "playerId B \<noteq> C"
  shows "\<exists>w' g p0 p1.
           findMatch gameId C sid uname w = (Some gameId, w') \<and>
           waitingPlayers w' = [B] \<and>
           activeGames w' gameId = Some g \<and>
           players g = [(playerId A, p0), (C, p1)] \<and>
           id_player p0 = playerId A \<and> socketId p0 = socketId_w A \<and>
           snake p0 = createInitialSnake 0 \<and>
           id_player p1 = C \<and> socketId p1 = sid \<and>
           snake p1 = createInitialSnake 1"
proof -
  have "removeEntry C (waitingPlayers w) = A # [B]"
    using assms by (simp add: removeEntry_id)
  from findMatch_paired [OF this assms(2)] show ?thesis
    by (simp add: entryPlayer_def)
qed

theorem findMatch_pairs_oldest_witness:
  "waitingPlayers (queueWorld [entryOf ''A'', entryOf ''B'']) = [entryOf ''A'', entryOf ''B''] \<and>
   playerId (entryOf ''A'') \<noteq> ''C'' \<and> playerId (entryOf ''B'') \<noteq> ''C'' \<and>
   (\<exists>w' g p0 p1.
      findMatch ''m'' ''C'' ''sC'' None (queueWorld [entryOf ''A'', entryOf ''B'']) = (Some ''m'', w') \<and>
      waitingPlayers w' = [entryOf ''B''] \<and>
      activeGames w' ''m'' = Some g \<and>
      players g = [(playerId (entryOf ''A''), p0), (''C'', p1)] \<and>
      id_player p0 = playerId (entryOf ''A'') \<and> socketId p0 = socketId_w (entryOf ''A'') \<and>
      snake p0 = createInitialSnake 0 \<and>
      id_player p1 = ''C'' \<and> socketId p1 = ''sC'' \<and>
      snake p1 = createInitialSnake 1)"
proof -
  have h1: "waitingPlayers (queueWorld [entryOf ''A'', entryOf ''B'']) = [entryOf ''A'', entryOf ''B'']"
    by (simp add: queueWorld_def)
  have h2: "playerId (entryOf ''A'') \<noteq> ''C''" by (simp add: entryOf_def)
  have h3: "playerId (entryOf ''B'') \<noteq> ''C''" by (simp add: entryOf_def)
  from findMatch_pairs_oldest [OF h1 h2 h3, where gameId = "''m''" and sid = "''sC''" and uname = None]
       h1 h2 h3
  show ?thesis by blast
qed



section \<open>The loop of the tick\<close>

subsection \<open>Helpers and apple spawning\<close>

lemma samePos_eq: "samePos a b \<longleftrightarrow> a = b"
  by (auto simp: samePos_def)

lemma collidesWithSnake_iff: "collidesWithSnake pos segs \<longleftrightarrow> pos \<in> set segs"
  by (auto simp: collidesWithSnake_def list_ex_iff samePos_eq)

lemma findIndex_None_iff: "findIndex P as = None \<longleftrightarrow> (\<forall>a \<in> set as. \<not> P a)"
  by (induction as) auto

lemma spawnLoop_result:
  "\<exists>new. fst (spawnLoop rand occ game attempts n) = game\<lparr>apples := apples game @ new\<rparr> \<and>
         length new \<le> 1 \<and> (\<forall>a \<in> set new. posKey a \<notin> set occ)"
proof (induction rand occ game attempts n rule: spawnLoop.induct)
  case (1 rand occ game attempts n)
  show ?case
  proof (cases "attempts < maxAttempts")
    case False
    then have "fst (spawnLoop rand occ game attempts n) = game\<lparr>apples := apples game @ []\<rparr>"
      by (simp add: spawnLoop.simps [of rand occ game attempts n])
    then show ?thesis by fastforce
  next
    case True
    define cx where "cx = rand n (width (gridSize game))"
    define cy where "cy = rand (n + 1) (height (gridSize game))"
    show ?thesis
    proof (cases "(cx, cy) \<in> set occ")
      case False
      with True have "fst (spawnLoop rand occ game attempts n)
          = game\<lparr>apples := apples game @ [\<lparr> x = cx, y = cy \<rparr>]\<rparr>"
        by (simp add: spawnLoop.simps [of rand occ game attempts n] cx_def cy_def Let_def)
      moreover have "\<forall>a \<in> set [\<lparr> x = cx, y = cy \<rparr>]. posKey a \<notin> set occ"
        using False by (simp add: posKey_def)
      ultimately show ?thesis
        by (metis One_nat_def le_refl length_Cons list.size(3))
    next
      case occupied: True
      with True have "spawnLoop rand occ game attempts n
          = spawnLoop rand occ game (attempts + 1) (n + 2)"
        by (simp add: spawnLoop.simps [of rand occ game attempts n] cx_def cy_def Let_def)
      with "1.IH" [OF True cx_def cy_def] occupied show ?thesis
        by simp
    qed
  qed
qed

lemma spawnAppleIn_result:
  "\<exists>new. fst (spawnAppleIn rand game n) = game\<lparr>apples := apples game @ new\<rparr> \<and>
         length new \<le> 1 \<and> (\<forall>a \<in> set new. posKey a \<notin> set (occupiedPositions game))"
  unfolding spawnAppleIn_def by (rule spawnLoop_result)


lemma list_ex_update_irrelevant:
  assumes "i < length ps" and "\<not> P (ps ! i)" and "\<not> P e"
  shows "list_ex P (ps[i := e]) = list_ex P ps"
proof -
  have "(\<exists>j < length ps. P (ps[i := e] ! j)) = (\<exists>j < length ps. P (ps ! j))"
    using assms by (metis nth_list_update_eq nth_list_update_neq)
  moreover have "list_ex P (ps[i := e]) = (\<exists>j < length ps. P (ps[i := e] ! j))"
    by (metis in_set_conv_nth length_list_update list_ex_iff)
  moreover have "list_ex P ps = (\<exists>j < length ps. P (ps ! j))"
    by (metis in_set_conv_nth list_ex_iff)
  ultimately show ?thesis by simp
qed

lemma spawnAppleIn_fields:
  "players (fst (spawnAppleIn rand game n)) = players game"
  "status (fst (spawnAppleIn rand game n)) = status game"
  "winnerId (fst (spawnAppleIn rand game n)) = winnerId game"
  "gridSize (fst (spawnAppleIn rand game n)) = gridSize game"
  "id_game (fst (spawnAppleIn rand game n)) = id_game game"
  "tickRate (fst (spawnAppleIn rand game n)) = tickRate game"
proof -
  obtain new where "fst (spawnAppleIn rand game n) = game\<lparr>apples := apples game @ new\<rparr>"
    using spawnAppleIn_result [of rand game n] by blast
  then show "players (fst (spawnAppleIn rand game n)) = players game"
    "status (fst (spawnAppleIn rand game n)) = status game"
    "winnerId (fst (spawnAppleIn rand game n)) = winnerId game"
    "gridSize (fst (spawnAppleIn rand game n)) = gridSize game"
    "id_game (fst (spawnAppleIn rand game n)) = id_game game"
    "tickRate (fst (spawnAppleIn rand game n)) = tickRate game"
    by simp_all
qed

lemma hitsOtherPlayer_setSnake:
  assumes "i < length (players game)"
  shows "hitsOtherPlayer (snd (players game ! i)) newHead (setSnake i s game)
         = hitsOtherPlayer (snd (players game ! i)) newHead game"
  unfolding hitsOtherPlayer_def setSnake_def
  using assms by (simp add: list_ex_update_irrelevant case_prod_beta)

lemma setSnake_fields:
  "status (setSnake i s game) = status game"
  "winnerId (setSnake i s game) = winnerId game"
  "gridSize (setSnake i s game) = gridSize game"
  "apples (setSnake i s game) = apples game"
  "id_game (setSnake i s game) = id_game game"
  "tickRate (setSnake i s game) = tickRate game"
  by (simp_all add: setSnake_def)

lemma findIndex_apple:
  "findIndex (\<lambda>apple. x apple = x newHead \<and> y apple = y newHead) as = None
     \<longleftrightarrow> (newHead :: Position) \<notin> set as"
  using samePos_eq [unfolded samePos_def] by (auto simp: findIndex_None_iff)

lemma tickPlayer_players:
  assumes "i < length (players game)"
  shows "players (fst (tickPlayer rand i (game, n)))
         = (players game)[i := (fst (players game ! i),
              (snd (players game ! i))\<lparr>snake := snakeAfter game (snd (players game ! i))\<rparr>)]"
proof -
  define player where "player = snd (players game ! i)"
  define s1 where "s1 = (snake player)\<lparr>direction := nextDirection (snake player)\<rparr>"
  show ?thesis
  proof (cases "isAlive (snake player)")
    case False
    then show ?thesis
      by (simp add: tickPlayer_def snakeAfter_def player_def)
  next
    case alive: True
    show ?thesis
    proof (cases "segments (snake player)")
      case Nil
      with alive show ?thesis
        using assms by (simp add: tickPlayer_def snakeAfter_def player_def [symmetric] setSnake_def)
    next
      case (Cons head rest)
      define newHead where "newHead = getNextPosition head (nextDirection (snake player))"
      show ?thesis
      proof (cases "isOutOfBounds newHead (gridSize game) \<or> newHead \<in> set (segments (snake player))
          \<or> hitsOtherPlayer player newHead game")
        case True
        with alive Cons show ?thesis
          using assms hitsOtherPlayer_setSnake [OF assms, of newHead]
          by (auto simp add: tickPlayer_def snakeAfter_def player_def [symmetric] newHead_def [symmetric]
              setSnake_fields collidesWithSnake_iff Let_def setSnake_def)
      next
        case False
        show ?thesis
        proof (cases "findIndex (\<lambda>apple. x apple = x newHead \<and> y apple = y newHead) (apples game)")
          case None
          with alive Cons False show ?thesis
            using assms hitsOtherPlayer_setSnake [OF assms, of newHead] findIndex_apple [of newHead "apples game"]
            by (auto simp add: tickPlayer_def snakeAfter_def player_def [symmetric] newHead_def [symmetric]
              setSnake_fields collidesWithSnake_iff Let_def setSnake_def)
        next
          case (Some appleIndex)
          have inA: "newHead \<in> set (apples game)"
            using Some findIndex_apple [of newHead "apples game"] by auto
          from alive Cons False Some inA show ?thesis
            using assms hitsOtherPlayer_setSnake [OF assms, of newHead]
            by (auto simp add: tickPlayer_def snakeAfter_def player_def [symmetric] newHead_def [symmetric]
              setSnake_fields collidesWithSnake_iff Let_def setSnake_def case_prod_beta spawnAppleIn_fields)
        qed
      qed
    qed
  qed
qed


subsection \<open>What the loop leaves unchanged\<close>

lemma tickPlayer_fields:
  "status (fst (tickPlayer rand i gn)) = status (fst gn)"
  "winnerId (fst (tickPlayer rand i gn)) = winnerId (fst gn)"
  "gridSize (fst (tickPlayer rand i gn)) = gridSize (fst gn)"
  "id_game (fst (tickPlayer rand i gn)) = id_game (fst gn)"
  "tickRate (fst (tickPlayer rand i gn)) = tickRate (fst gn)"
  by (simp_all add: tickPlayer_def Let_def setSnake_fields spawnAppleIn_fields case_prod_beta
        split: list.split option.split)

lemma tickPlayer_players':
  assumes "i < length (players (fst gn))"
  shows "players (fst (tickPlayer rand i gn))
         = (players (fst gn))[i := (fst (players (fst gn) ! i),
              (snd (players (fst gn) ! i))\<lparr>snake := snakeAfter (fst gn) (snd (players (fst gn) ! i))\<rparr>)]"
  using tickPlayer_players [OF assms, of rand "snd gn"] by simp

lemma gameBefore_0: "gameBefore rand 0 game n = (game, n)"
  by (simp add: gameBefore_def)

lemma gameBefore_Suc:
  "gameBefore rand (Suc i) game n = tickPlayer rand i (gameBefore rand i game n)"
  by (simp add: gameBefore_def)

lemma tickPlayers_gameBefore:
  "tickPlayers rand game n = gameBefore rand (length (players game)) game n"
  by (simp add: tickPlayers_def gameBefore_def)

lemma gameBefore_fields:
  "status (fst (gameBefore rand i game n)) = status game"
  "winnerId (fst (gameBefore rand i game n)) = winnerId game"
  "gridSize (fst (gameBefore rand i game n)) = gridSize game"
  "id_game (fst (gameBefore rand i game n)) = id_game game"
  "tickRate (fst (gameBefore rand i game n)) = tickRate game"
  by (induction i) (simp_all add: gameBefore_0 gameBefore_Suc tickPlayer_fields)

lemma gameBefore_length:
  "i \<le> length (players game) \<Longrightarrow>
   length (players (fst (gameBefore rand i game n))) = length (players game)"
  by (induction i) (simp_all add: gameBefore_0 gameBefore_Suc tickPlayer_players')

lemma gameBefore_later:
  "i \<le> j \<Longrightarrow> j < length (players game) \<Longrightarrow>
   players (fst (gameBefore rand i game n)) ! j = players game ! j"
  by (induction i) (simp_all add: gameBefore_0 gameBefore_Suc tickPlayer_players' gameBefore_length)

lemma gameBefore_earlier:
  "j < i \<Longrightarrow> i \<le> i' \<Longrightarrow> i' \<le> length (players game) \<Longrightarrow>
   players (fst (gameBefore rand i' game n)) ! j = players (fst (gameBefore rand i game n)) ! j"
proof (induction i')
  case 0
  then show ?case by simp
next
  case (Suc i')
  show ?case
  proof (cases "i = Suc i'")
    case True
    then show ?thesis by simp
  next
    case False
    with Suc.prems have le: "i \<le> i'" and lt: "i' < length (players game)" and ne: "j \<noteq> i'"
      by auto
    from Suc.IH [OF Suc.prems(1) le] lt
    have "players (fst (gameBefore rand i' game n)) ! j = players (fst (gameBefore rand i game n)) ! j"
      by simp
    with lt ne show ?thesis
      by (simp add: gameBefore_Suc tickPlayer_players' gameBefore_length)
  qed
qed

text \<open>The entry of the i-th player after the whole loop is what its own iteration wrote.\<close>

lemma tickPlayers_nth:
  assumes "i < length (players game)"
  shows "players (fst (tickPlayers rand game n)) ! i
         = (fst (players game ! i),
            (snd (players game ! i))\<lparr>snake :=
               snakeAfter (fst (gameBefore rand i game n)) (snd (players game ! i))\<rparr>)"
proof -
  have "players (fst (tickPlayers rand game n)) ! i
        = players (fst (gameBefore rand (Suc i) game n)) ! i"
    unfolding tickPlayers_gameBefore
    using assms by (intro gameBefore_earlier) auto
  also have "\<dots> = (fst (players game ! i),
            (snd (players game ! i))\<lparr>snake :=
               snakeAfter (fst (gameBefore rand i game n)) (snd (players game ! i))\<rparr>)"
    using assms
    by (simp add: gameBefore_Suc tickPlayer_players' gameBefore_length gameBefore_later)
  finally show ?thesis .
qed

lemma tickPlayers_length:
  "length (players (fst (tickPlayers rand game n))) = length (players game)"
  by (simp add: tickPlayers_gameBefore gameBefore_length)

lemma checkGameOver_players: "players (checkGameOver game) = players game"
  by (simp add: checkGameOver_def split: list.split)

lemma tickGame_players:
  "players (fst (tickGame rand game n)) = players (fst (tickPlayers rand game n))"
  by (simp add: tickGame_def case_prod_beta checkGameOver_players)


lemma tick_playing:
  assumes "activeGames w gameId = Some game" and "status game = PLAYING"
  shows "tick rand gameId w =
           (True, w\<lparr>activeGames := (activeGames w)(gameId \<mapsto> fst (tickGame rand game (randomCalls w))),
                    randomCalls := snd (tickGame rand game (randomCalls w))\<rparr>)"
  using assms by (simp add: tick_def case_prod_beta)

lemma tick_playing_game:
  assumes "activeGames w gameId = Some game" and "status game = PLAYING"
  shows "activeGames (snd (tick rand gameId w)) gameId = Some (fst (tickGame rand game (randomCalls w)))"
  by (simp add: tick_playing [OF assms])

lemma tickPlayers_fields:
  "status (fst (tickPlayers rand game n)) = status game"
  "winnerId (fst (tickPlayers rand game n)) = winnerId game"
  "gridSize (fst (tickPlayers rand game n)) = gridSize game"
  "id_game (fst (tickPlayers rand game n)) = id_game game"
  "tickRate (fst (tickPlayers rand game n)) = tickRate game"
  by (simp_all add: tickPlayers_gameBefore gameBefore_fields)

section \<open>Termination of a match\<close>

lemma case_filter_singleton:
  assumes "case filter P ps of [] \<Rightarrow> A | [p] \<Rightarrow> B p | _ \<Rightarrow> C"
    and "map f (filter P ps) = [b]"
  shows "\<exists>p. B p \<and> f p = b"
  using assms by (cases "filter P ps") (auto split: list.splits)

text \<open>
  C2. A tick of a match in \<open>PLAYING\<close> (whose winner is not set, as it never is before
  a match finishes) returns \<open>true\<close> and stores a match that is the one the loop over the
  players left (\<open>tickPlayers\<close>: the same players with the same snakes, the same apples,
  grid, identifier and tick rate) up to \<open>status\<close> and \<open>winnerId\<close>, which are these:
  when none of those snakes is alive the match is \<open>FINISHED\<close> and the winner is still
  not set; when exactly one is alive the match is \<open>FINISHED\<close> and \<open>winnerId\<close> is the
  identifier of that player; when two or more are alive the match is still \<open>PLAYING\<close>
  with no winner.
\<close>

theorem tick_termination_check:
  assumes "activeGames w gameId = Some game" and "status game = PLAYING" and "winnerId game = None"
  shows "\<exists>game'. tick rand gameId w
             = (True, w\<lparr>activeGames := (activeGames w)(gameId \<mapsto> game'),
                        randomCalls := snd (tickPlayers rand game (randomCalls w))\<rparr>) \<and>
           players game' = players (fst (tickPlayers rand game (randomCalls w))) \<and>
           apples game' = apples (fst (tickPlayers rand game (randomCalls w))) \<and>
           gridSize game' = gridSize game \<and> id_game game' = id_game game \<and>
           tickRate game' = tickRate game \<and>
           (case filter (\<lambda>p. isAlive (snake p)) (map snd (players game')) of
              [] \<Rightarrow> status game' = FINISHED \<and> winnerId game' = None
            | [p] \<Rightarrow> status game' = FINISHED \<and> winnerId game' = Some (id_player p)
            | _ \<Rightarrow> status game' = PLAYING \<and> winnerId game' = None)"
proof -
  define mid where "mid = fst (tickPlayers rand game (randomCalls w))"
  have tg: "tickGame rand game (randomCalls w)
            = (checkGameOver mid, snd (tickPlayers rand game (randomCalls w)))"
    by (simp add: tickGame_def case_prod_beta mid_def)
  have mid: "status mid = PLAYING" "winnerId mid = None" "gridSize mid = gridSize game"
    "id_game mid = id_game game" "tickRate mid = tickRate game"
    using assms by (simp_all add: mid_def tickPlayers_fields)
  have same: "players (checkGameOver mid) = players mid" "apples (checkGameOver mid) = apples mid"
    "gridSize (checkGameOver mid) = gridSize mid" "id_game (checkGameOver mid) = id_game mid"
    "tickRate (checkGameOver mid) = tickRate mid"
    by (simp_all add: checkGameOver_def split: list.split)
  have verdict: "case filter (\<lambda>p. isAlive (snake p)) (map snd (players (checkGameOver mid))) of
              [] \<Rightarrow> status (checkGameOver mid) = FINISHED \<and> winnerId (checkGameOver mid) = None
            | [p] \<Rightarrow> status (checkGameOver mid) = FINISHED \<and> winnerId (checkGameOver mid) = Some (id_player p)
            | _ \<Rightarrow> status (checkGameOver mid) = PLAYING \<and> winnerId (checkGameOver mid) = None"
    unfolding same
    using mid by (simp add: checkGameOver_def alivePlayersOf_def split: list.split)
  have "tick rand gameId w
             = (True, w\<lparr>activeGames := (activeGames w)(gameId \<mapsto> checkGameOver mid),
                        randomCalls := snd (tickPlayers rand game (randomCalls w))\<rparr>)"
    using tick_playing [OF assms(1,2), of rand] tg by simp
  with same mid verdict show ?thesis
    unfolding mid_def [symmetric] by (intro exI [of _ "checkGameOver mid"]) simp
qed


text \<open>
  The three cases on the code: one snake runs into the wall and the other wins; both
  run off the grid and nobody wins; both move on and the match goes on.
\<close>

theorem tick_termination_check_witness:
  "activeGames (gameWorld wallGame) ''g'' = Some wallGame \<and> status wallGame = PLAYING \<and>
   winnerId wallGame = None \<and>
   (\<exists>game'. activeGames (snd (tick noDraws ''g'' (gameWorld wallGame))) ''g'' = Some game' \<and>
      aliveFlags game' = [False, True] \<and> status game' = FINISHED \<and> winnerId game' = Some ''B'') \<and>
   activeGames (gameWorld bothWallGame) ''g'' = Some bothWallGame \<and> status bothWallGame = PLAYING \<and>
   winnerId bothWallGame = None \<and>
   (\<exists>game'. activeGames (snd (tick noDraws ''g'' (gameWorld bothWallGame))) ''g'' = Some game' \<and>
      aliveFlags game' = [False, False] \<and> status game' = FINISHED \<and> winnerId game' = None) \<and>
   activeGames (gameWorld playingGame) ''g'' = Some playingGame \<and> status playingGame = PLAYING \<and>
   winnerId playingGame = None \<and>
   (\<exists>game'. activeGames (snd (tick noDraws ''g'' (gameWorld playingGame))) ''g'' = Some game' \<and>
      aliveFlags game' = [True, True] \<and> status game' = PLAYING \<and> winnerId game' = None)"
proof -
  have a1: "activeGames (gameWorld wallGame) ''g'' = Some wallGame"
    by (simp add: gameWorld_def wallGame_def playingGame_def newGame_def)
  have a2: "status wallGame = PLAYING"
    by (simp add: wallGame_def playingGame_def)
  have a3: "winnerId wallGame = None"
    by (simp add: wallGame_def playingGame_def newGame_def)
  have a4: "randomCalls (gameWorld wallGame) = 0"
    by (simp add: gameWorld_def)
  have a5: "map id_player (filter (\<lambda>p. isAlive (snake p))
              (map snd (players (fst (tickPlayers noDraws wallGame 0))))) = [''B'']"
    by code_simp
  have a6: "aliveFlags (fst (tickPlayers noDraws wallGame 0)) = [False, True]"
    by code_simp
  obtain ga where ga: "tick noDraws ''g'' (gameWorld wallGame)
        = (True, (gameWorld wallGame)\<lparr>activeGames := (activeGames (gameWorld wallGame))(''g'' \<mapsto> ga),
             randomCalls := snd (tickPlayers noDraws wallGame 0)\<rparr>)"
      "players ga = players (fst (tickPlayers noDraws wallGame 0))"
      "case filter (\<lambda>p. isAlive (snake p)) (map snd (players ga)) of
              [] \<Rightarrow> status ga = FINISHED \<and> winnerId ga = None
            | [p] \<Rightarrow> status ga = FINISHED \<and> winnerId ga = Some (id_player p)
            | _ \<Rightarrow> status ga = PLAYING \<and> winnerId ga = None"
    using tick_termination_check [OF a1 a2 a3, of noDraws] unfolding a4 by blast
  have "status ga = FINISHED \<and> winnerId ga = Some ''B''"
    using case_filter_singleton [OF ga(3), of id_player "''B''"] a5 unfolding ga(2) by auto
  moreover have "aliveFlags ga = [False, True]"
    using a6 by (simp add: aliveFlags_def ga(2))
  moreover have "activeGames (snd (tick noDraws ''g'' (gameWorld wallGame))) ''g'' = Some ga"
    by (simp add: ga(1))
  ultimately have A: "\<exists>game'. activeGames (snd (tick noDraws ''g'' (gameWorld wallGame))) ''g'' = Some game' \<and>
      aliveFlags game' = [False, True] \<and> status game' = FINISHED \<and> winnerId game' = Some ''B''"
    by blast

  have b1: "activeGames (gameWorld bothWallGame) ''g'' = Some bothWallGame"
    by (simp add: gameWorld_def bothWallGame_def playingGame_def newGame_def)
  have b2: "status bothWallGame = PLAYING"
    by (simp add: bothWallGame_def playingGame_def)
  have b3: "winnerId bothWallGame = None"
    by (simp add: bothWallGame_def playingGame_def newGame_def)
  have b4: "randomCalls (gameWorld bothWallGame) = 0"
    by (simp add: gameWorld_def)
  have b5: "filter (\<lambda>p. isAlive (snake p))
              (map snd (players (fst (tickPlayers noDraws bothWallGame 0)))) = []"
    by code_simp
  have b6: "aliveFlags (fst (tickPlayers noDraws bothWallGame 0)) = [False, False]"
    by code_simp
  obtain gb where gb: "tick noDraws ''g'' (gameWorld bothWallGame)
        = (True, (gameWorld bothWallGame)\<lparr>activeGames := (activeGames (gameWorld bothWallGame))(''g'' \<mapsto> gb),
             randomCalls := snd (tickPlayers noDraws bothWallGame 0)\<rparr>)"
      "players gb = players (fst (tickPlayers noDraws bothWallGame 0))"
      "case filter (\<lambda>p. isAlive (snake p)) (map snd (players gb)) of
              [] \<Rightarrow> status gb = FINISHED \<and> winnerId gb = None
            | [p] \<Rightarrow> status gb = FINISHED \<and> winnerId gb = Some (id_player p)
            | _ \<Rightarrow> status gb = PLAYING \<and> winnerId gb = None"
    using tick_termination_check [OF b1 b2 b3, of noDraws] unfolding b4 by blast
  have "status gb = FINISHED \<and> winnerId gb = None"
    using gb(3) unfolding gb(2) b5 by simp
  moreover have "aliveFlags gb = [False, False]"
    using b6 by (simp add: aliveFlags_def gb(2))
  moreover have "activeGames (snd (tick noDraws ''g'' (gameWorld bothWallGame))) ''g'' = Some gb"
    by (simp add: gb(1))
  ultimately have B: "\<exists>game'. activeGames (snd (tick noDraws ''g'' (gameWorld bothWallGame))) ''g'' = Some game' \<and>
      aliveFlags game' = [False, False] \<and> status game' = FINISHED \<and> winnerId game' = None"
    by blast

  have c1: "activeGames (gameWorld playingGame) ''g'' = Some playingGame"
    by (simp add: gameWorld_def playingGame_def newGame_def)
  have c2: "status playingGame = PLAYING"
    by (simp add: playingGame_def)
  have c3: "winnerId playingGame = None"
    by (simp add: playingGame_def newGame_def)
  have c4: "randomCalls (gameWorld playingGame) = 0"
    by (simp add: gameWorld_def)
  have c5: "map id_player (filter (\<lambda>p. isAlive (snake p))
              (map snd (players (fst (tickPlayers noDraws playingGame 0))))) = [''A'', ''B'']"
    by code_simp
  have c6: "aliveFlags (fst (tickPlayers noDraws playingGame 0)) = [True, True]"
    by code_simp
  obtain gc where gc: "tick noDraws ''g'' (gameWorld playingGame)
        = (True, (gameWorld playingGame)\<lparr>activeGames := (activeGames (gameWorld playingGame))(''g'' \<mapsto> gc),
             randomCalls := snd (tickPlayers noDraws playingGame 0)\<rparr>)"
      "players gc = players (fst (tickPlayers noDraws playingGame 0))"
      "case filter (\<lambda>p. isAlive (snake p)) (map snd (players gc)) of
              [] \<Rightarrow> status gc = FINISHED \<and> winnerId gc = None
            | [p] \<Rightarrow> status gc = FINISHED \<and> winnerId gc = Some (id_player p)
            | _ \<Rightarrow> status gc = PLAYING \<and> winnerId gc = None"
    using tick_termination_check [OF c1 c2 c3, of noDraws] unfolding c4 by blast
  have "status gc = PLAYING \<and> winnerId gc = None"
    using gc(3) c5 unfolding gc(2)
    by (cases "filter (\<lambda>p. isAlive (snake p))
              (map snd (players (fst (tickPlayers noDraws playingGame 0))))")
       (auto split: list.splits)
  moreover have "aliveFlags gc = [True, True]"
    using c6 by (simp add: aliveFlags_def gc(2))
  moreover have "activeGames (snd (tick noDraws ''g'' (gameWorld playingGame))) ''g'' = Some gc"
    by (simp add: gc(1))
  ultimately have C: "\<exists>game'. activeGames (snd (tick noDraws ''g'' (gameWorld playingGame))) ''g'' = Some game' \<and>
      aliveFlags game' = [True, True] \<and> status game' = PLAYING \<and> winnerId game' = None"
    by blast
  from a1 a2 a3 A b1 b2 b3 B c1 c2 c3 C show ?thesis by blast
qed

text \<open>The two scenarios of the specification, run on the code.\<close>

lemma tick_one_survivor:
  "map_option aliveFlags (activeGames (snd (tick noDraws ''g'' (gameWorld wallGame))) ''g'')
     = Some [False, True] \<and>
   map_option status (activeGames (snd (tick noDraws ''g'' (gameWorld wallGame))) ''g'')
     = Some FINISHED \<and>
   map_option winnerId (activeGames (snd (tick noDraws ''g'' (gameWorld wallGame))) ''g'')
     = Some (Some ''B'')"
  by code_simp

lemma tick_both_off_grid:
  "map_option aliveFlags (activeGames (snd (tick noDraws ''g'' (gameWorld bothWallGame))) ''g'')
     = Some [False, False] \<and>
   map_option status (activeGames (snd (tick noDraws ''g'' (gameWorld bothWallGame))) ''g'')
     = Some FINISHED \<and>
   map_option winnerId (activeGames (snd (tick noDraws ''g'' (gameWorld bothWallGame))) ''g'')
     = Some None"
  by code_simp

section \<open>The opponent check\<close>

lemma hitsOtherPlayer_nth:
  "hitsOtherPlayer p nh g \<longleftrightarrow>
     (\<exists>j < length (players g). id_player (snd (players g ! j)) \<noteq> id_player p \<and>
        isAlive (snake (snd (players g ! j))) \<and> nh \<in> set (segments (snake (snd (players g ! j)))))"
proof -
  define Q where "Q = (\<lambda>e :: string \<times> Player. id_player (snd e) \<noteq> id_player p \<and>
       isAlive (snake (snd e)) \<and> nh \<in> set (segments (snake (snd e))))"
  have "hitsOtherPlayer p nh g \<longleftrightarrow> (\<exists>e \<in> set (players g). Q e)"
    by (simp add: hitsOtherPlayer_def list_ex_iff collidesWithSnake_iff case_prod_beta Q_def)
  also have "\<dots> \<longleftrightarrow> (\<exists>j < length (players g). Q (players g ! j))"
    by (metis in_set_conv_nth)
  finally show ?thesis by (simp add: Q_def)
qed

lemma gameBefore_nth:
  assumes "i \<le> length (players game)" and "j < length (players game)"
  shows "players (fst (gameBefore rand i game n)) ! j
         = (if j < i then players (fst (tickPlayers rand game n)) ! j else players game ! j)"
proof (cases "j < i")
  case True
  with assms gameBefore_earlier [of j i "length (players game)" game rand n] show ?thesis
    by (simp add: tickPlayers_gameBefore)
next
  case False
  with assms gameBefore_later [of i j game rand n] show ?thesis by simp
qed

text \<open>
  C1 as stated fails: the loop handles the snakes one after the other and writes each
  move at once, so only the first snake sees the other one as it was before the tick.
  In \<open>crossingGame\<close> both snakes are alive, the new head of \<open>B\<close> is \<open>(2,5)\<close>, a cell
  \<open>A\<close> occupied before the tick began; \<open>A\<close> has moved off it when \<open>B\<close> is handled, and
  \<open>B\<close> is alive after the tick.
\<close>

theorem tick_opponent_pre_tick_counterexample:
  "status crossingGame = PLAYING \<and>
   aliveFlags crossingGame = [True, True] \<and>
   newHeadOf (snake (snd (players crossingGame ! 1))) = \<lparr> x = 2, y = 5 \<rparr> \<and>
   \<lparr> x = 2, y = 5 \<rparr> \<in> set (segments (snake (snd (players crossingGame ! 0)))) \<and>
   map_option aliveFlags (activeGames (snd (tick noDraws ''g'' (gameWorld crossingGame))) ''g'')
     = Some [True, True]"
  by code_simp

text \<open>
  C1, amended. In a tick of a match in \<open>PLAYING\<close>, a living snake whose new head is
  inside the grid and on none of its own segments is marked dead exactly when that
  head is on a segment of a living snake of another player, the other player taken
  as the loop finds it: a player earlier in the iteration order with the segments
  and the liveness it has after its own move of this tick, a player later in the
  order with those it had before the tick.
\<close>

theorem tick_opponent_check:
  assumes "activeGames w gameId = Some game" and "status game = PLAYING"
    and "i < length (players game)" and "players game ! i = (k, p)" and "isAlive (snake p)"
    and "segments (snake p) \<noteq> []"
    and "\<not> isOutOfBounds (newHeadOf (snake p)) (gridSize game)"
    and "newHeadOf (snake p) \<notin> set (segments (snake p))"
    and "activeGames (snd (tick rand gameId w)) gameId = Some game'"
  shows "\<not> isAlive (snake (snd (players game' ! i))) \<longleftrightarrow>
           (\<exists>j < length (players game). j \<noteq> i \<and>
              (let q = snd ((if j < i then players game' else players game) ! j)
               in id_player q \<noteq> id_player p \<and> isAlive (snake q) \<and>
                  newHeadOf (snake p) \<in> set (segments (snake q))))"
proof -
  define mid where "mid = fst (gameBefore rand i game (randomCalls w))"
  have game': "game' = fst (tickGame rand game (randomCalls w))"
    using tick_playing_game [OF assms(1,2), of rand] assms(9) by simp
  then have "players game' ! i = (k, p\<lparr>snake := snakeAfter mid p\<rparr>)"
    using tickPlayers_nth [OF assms(3), of rand "randomCalls w"] assms(4)
    by (simp add: tickGame_players mid_def)
  then have "\<not> isAlive (snake (snd (players game' ! i))) \<longleftrightarrow> \<not> isAlive (snakeAfter mid p)"
    by simp
  also have "\<dots> \<longleftrightarrow> hitsOtherPlayer p (newHeadOf (snake p)) mid"
    using assms(5-8)
    by (auto simp: snakeAfter_def newHeadOf_def Let_def mid_def gameBefore_fields split: list.splits)
  also have "\<dots> \<longleftrightarrow> (\<exists>j < length (players game).
        id_player (snd (players mid ! j)) \<noteq> id_player p \<and>
        isAlive (snake (snd (players mid ! j))) \<and>
        newHeadOf (snake p) \<in> set (segments (snake (snd (players mid ! j)))))"
    using assms(3) by (simp add: hitsOtherPlayer_nth mid_def gameBefore_length)
  also have "\<dots> \<longleftrightarrow> (\<exists>j < length (players game). j \<noteq> i \<and>
        id_player (snd (players mid ! j)) \<noteq> id_player p \<and>
        isAlive (snake (snd (players mid ! j))) \<and>
        newHeadOf (snake p) \<in> set (segments (snake (snd (players mid ! j)))))"
  proof -
    have "players mid ! i = (k, p)"
      using assms(3,4) by (simp add: mid_def gameBefore_later)
    then show ?thesis by auto
  qed
  also have "\<dots> \<longleftrightarrow> (\<exists>j < length (players game). j \<noteq> i \<and>
              (let q = snd ((if j < i then players game' else players game) ! j)
               in id_player q \<noteq> id_player p \<and> isAlive (snake q) \<and>
                  newHeadOf (snake p) \<in> set (segments (snake q))))"
  proof -
    have "\<And>j. j < length (players game) \<Longrightarrow>
        players mid ! j = (if j < i then players game' else players game) ! j"
      using assms(3) gameBefore_nth [of i game _ rand "randomCalls w"]
      by (simp add: mid_def game' tickGame_players)
    then show ?thesis by (simp add: Let_def cong: conj_cong)
  qed
  finally show ?thesis .
qed


theorem tick_opponent_check_witness:
  "activeGames (gameWorld headOnGame) ''g'' = Some headOnGame \<and> status headOnGame = PLAYING \<and>
   1 < length (players headOnGame) \<and>
   players headOnGame ! 1 = (''B'', withSnake playerB (columnDown 6 6) UP) \<and>
   isAlive (snake (withSnake playerB (columnDown 6 6) UP)) \<and>
   segments (snake (withSnake playerB (columnDown 6 6) UP)) \<noteq> [] \<and>
   \<not> isOutOfBounds (newHeadOf (snake (withSnake playerB (columnDown 6 6) UP))) (gridSize headOnGame) \<and>
   newHeadOf (snake (withSnake playerB (columnDown 6 6) UP))
     \<notin> set (segments (snake (withSnake playerB (columnDown 6 6) UP))) \<and>
   newHeadOf (snake (withSnake playerB (columnDown 6 6) UP)) \<notin> set (concat (segmentLists headOnGame)) \<and>
   activeGames (snd (tick noDraws ''g'' (gameWorld headOnGame))) ''g''
     = Some (fst (tickGame noDraws headOnGame 0)) \<and>
   \<not> isAlive (snake (snd (players (fst (tickGame noDraws headOnGame 0)) ! 1))) \<and>
   (\<exists>j < length (players headOnGame). j \<noteq> 1 \<and>
      (let q = snd ((if j < 1 then players (fst (tickGame noDraws headOnGame 0))
                     else players headOnGame) ! j)
       in id_player q \<noteq> id_player (withSnake playerB (columnDown 6 6) UP) \<and> isAlive (snake q) \<and>
          newHeadOf (snake (withSnake playerB (columnDown 6 6) UP)) \<in> set (segments (snake q))))"
proof -
  have h1: "activeGames (gameWorld headOnGame) ''g'' = Some headOnGame"
    by (simp add: gameWorld_def headOnGame_def playingGame_def newGame_def)
  have h2: "status headOnGame = PLAYING"
    by (simp add: headOnGame_def playingGame_def)
  have h3: "1 < length (players headOnGame)"
    by (simp add: headOnGame_def)
  have h4: "players headOnGame ! 1 = (''B'', withSnake playerB (columnDown 6 6) UP)"
    by (simp add: headOnGame_def)
  have h5: "isAlive (snake (withSnake playerB (columnDown 6 6) UP))"
    by (simp add: withSnake_def)
  have h6: "segments (snake (withSnake playerB (columnDown 6 6) UP)) \<noteq> []"
    by code_simp
  have h7: "\<not> isOutOfBounds (newHeadOf (snake (withSnake playerB (columnDown 6 6) UP)))
              (gridSize headOnGame)"
    by code_simp
  have h8: "newHeadOf (snake (withSnake playerB (columnDown 6 6) UP))
              \<notin> set (segments (snake (withSnake playerB (columnDown 6 6) UP)))"
    by code_simp
  have free: "newHeadOf (snake (withSnake playerB (columnDown 6 6) UP))
              \<notin> set (concat (segmentLists headOnGame))"
    by code_simp
  have n: "randomCalls (gameWorld headOnGame) = 0"
    by (simp add: gameWorld_def)
  have h9: "activeGames (snd (tick noDraws ''g'' (gameWorld headOnGame))) ''g''
              = Some (fst (tickGame noDraws headOnGame 0))"
    using tick_playing_game [OF h1 h2, of noDraws] n by simp
  have dead: "\<not> isAlive (snake (snd (players (fst (tickGame noDraws headOnGame 0)) ! 1)))"
    by code_simp
  from tick_opponent_check [OF h1 h2 h3 h4 h5 h6 h7 h8 h9] dead
  have "\<exists>j < length (players headOnGame). j \<noteq> 1 \<and>
      (let q = snd ((if j < 1 then players (fst (tickGame noDraws headOnGame 0))
                     else players headOnGame) ! j)
       in id_player q \<noteq> id_player (withSnake playerB (columnDown 6 6) UP) \<and> isAlive (snake q) \<and>
          newHeadOf (snake (withSnake playerB (columnDown 6 6) UP)) \<in> set (segments (snake q)))"
    by simp
  with h1 h2 h3 h4 h5 h6 h7 h8 free h9 dead show ?thesis by blast
qed

section \<open>No cell is occupied twice\<close>

lemma cellsOf_append: "cellsOf (ps @ qs) = cellsOf ps @ cellsOf qs"
  by (simp add: cellsOf_def)

lemma cellsOf_Cons:
  "cellsOf (e # ps) = (if isAlive (snake (snd e)) then segments (snake (snd e)) else []) @ cellsOf ps"
  by (simp add: cellsOf_def case_prod_beta)

lemma in_cellsOf:
  "c \<in> set (cellsOf ps) \<longleftrightarrow>
     (\<exists>e \<in> set ps. isAlive (snake (snd e)) \<and> c \<in> set (segments (snake (snd e))))"
  by (induction ps) (auto simp: cellsOf_Cons cellsOf_def)

lemma snakeAfter_cells:
  assumes "isAlive (snakeAfter g p)"
  shows "isAlive (snake p)"
    and "distinct (segments (snake p)) \<Longrightarrow> distinct (segments (snakeAfter g p))"
    and "c \<in> set (segments (snakeAfter g p)) \<Longrightarrow>
           c \<in> set (segments (snake p)) \<or>
           (c = newHeadOf (snake p) \<and> \<not> hitsOtherPlayer p (newHeadOf (snake p)) g)"
proof -
  show "isAlive (snake p)"
    using assms by (auto simp: snakeAfter_def Let_def split: list.splits if_splits)
  show "distinct (segments (snakeAfter g p))" if "distinct (segments (snake p))"
    using assms that
    by (auto simp: snakeAfter_def Let_def distinct_butlast dest: in_set_butlastD
        split: list.splits if_splits)
  show "c \<in> set (segments (snake p)) \<or>
           (c = newHeadOf (snake p) \<and> \<not> hitsOtherPlayer p (newHeadOf (snake p)) g)"
    if "c \<in> set (segments (snakeAfter g p))"
    using assms that
    by (auto simp: snakeAfter_def Let_def newHeadOf_def dest: in_set_butlastD
        split: list.splits if_splits)
qed

lemma hitsOtherPlayer_cells:
  assumes "\<not> hitsOtherPlayer p nh g"
    and "\<forall>e \<in> set qs. id_player (snd e) \<noteq> id_player p" and "set qs \<subseteq> set (players g)"
  shows "nh \<notin> set (cellsOf qs)"
  using assms
  by (auto simp: in_cellsOf hitsOtherPlayer_def list_ex_iff collidesWithSnake_iff case_prod_beta)

lemma noOverlap_update:
  assumes i: "i < length (players g)"
    and ids: "distinct (map (\<lambda>(k, p). id_player p) (players g))"
    and cells: "distinct (cellsOf (players g))"
  shows "distinct (cellsOf ((players g)[i := (fst (players g ! i),
            (snd (players g ! i))\<lparr>snake := snakeAfter g (snd (players g ! i))\<rparr>)]))"
proof -
  define pre where "pre = take i (players g)"
  define post where "post = drop (Suc i) (players g)"
  define p where "p = snd (players g ! i)"
  define S where "S = snakeAfter g p"
  have ps: "players g = pre @ (fst (players g ! i), p) # post"
    using i by (simp add: pre_def post_def p_def id_take_nth_drop)
  have upd: "(players g)[i := (fst (players g ! i), p\<lparr>snake := S\<rparr>)]
             = pre @ (fst (players g ! i), p\<lparr>snake := S\<rparr>) # post"
    using i by (simp add: pre_def post_def upd_conv_take_nth_drop)
  have others: "\<forall>e \<in> set pre \<union> set post. id_player (snd e) \<noteq> id_player p"
  proof -
    have "id_player p \<notin> (\<lambda>e. id_player (snd e)) ` (set pre \<union> set post)"
      using ids by (subst (asm) ps) (auto simp: case_prod_beta)
    then show ?thesis by (metis imageI)
  qed
  have sub: "set pre \<subseteq> set (players g)" "set post \<subseteq> set (players g)"
    by (subst ps, auto)+
  have old: "distinct (cellsOf pre @ (if isAlive (snake p) then segments (snake p) else []) @ cellsOf post)"
  proof -
    have "cellsOf (players g)
          = cellsOf pre @ (if isAlive (snake p) then segments (snake p) else []) @ cellsOf post"
      by (subst ps) (simp add: cellsOf_append cellsOf_Cons)
    with cells show ?thesis by simp
  qed
  have new: "cellsOf (pre @ (fst (players g ! i), p\<lparr>snake := S\<rparr>) # post)
             = cellsOf pre @ (if isAlive S then segments S else []) @ cellsOf post"
    by (simp add: cellsOf_append cellsOf_Cons)
  have "distinct (cellsOf pre @ (if isAlive S then segments S else []) @ cellsOf post)"
  proof (cases "isAlive S")
    case False
    with old show ?thesis by auto
  next
    case True
    note facts = snakeAfter_cells [of g p, folded S_def, OF True]
    have fresh: "\<not> hitsOtherPlayer p (newHeadOf (snake p)) g \<Longrightarrow>
        newHeadOf (snake p) \<notin> set (cellsOf pre) \<and> newHeadOf (snake p) \<notin> set (cellsOf post)"
      using hitsOtherPlayer_cells [of p "newHeadOf (snake p)" g] others sub by auto
    have d: "distinct (segments S)"
      using old facts(1) facts(2) by simp
    have "set (segments S) \<inter> set (cellsOf pre) = {}"
      using old facts(1) facts(3) fresh by auto
    moreover have "set (segments S) \<inter> set (cellsOf post) = {}"
      using old facts(1) facts(3) fresh by auto
    ultimately show ?thesis
      using old d True by auto
  qed
  then show ?thesis
    unfolding p_def [symmetric] S_def [symmetric] upd new .
qed

lemma ids_update:
  "i < length ps \<Longrightarrow>
   map (\<lambda>(k, p). id_player p) (ps[i := (fst (ps ! i), (snd (ps ! i))\<lparr>snake := s\<rparr>)])
   = map (\<lambda>(k, p). id_player p) ps"
  by (simp add: map_update case_prod_beta list_update_same_conv)

lemma tickPlayer_invariant:
  assumes "i < length (players (fst gn))" and "idsDistinct (fst gn)" and "noOverlap (fst gn)"
  shows "idsDistinct (fst (tickPlayer rand i gn)) \<and> noOverlap (fst (tickPlayer rand i gn))"
  using assms noOverlap_update [of i "fst gn"]
  by (simp add: idsDistinct_def noOverlap_def tickPlayer_players' ids_update)

lemma gameBefore_invariant:
  assumes "idsDistinct game" and "noOverlap game"
  shows "i \<le> length (players game) \<Longrightarrow>
         idsDistinct (fst (gameBefore rand i game n)) \<and> noOverlap (fst (gameBefore rand i game n))"
proof (induction i)
  case 0
  with assms show ?case by (simp add: gameBefore_0)
next
  case (Suc i)
  then show ?case
    using tickPlayer_invariant [of i "gameBefore rand i game n" rand]
    by (simp add: gameBefore_Suc gameBefore_length)
qed

text \<open>
  C4. Every tick preserves the invariant that no cell is occupied twice among the
  segments of the living snakes: no living snake overlaps itself and no two living
  snakes overlap each other after the tick when this held before it. The players are
  stored under their own identifiers (\<open>idsDistinct\<close>), which the tick preserves too.
\<close>

theorem tick_keeps_cells_apart:
  assumes "activeGames w gameId = Some game" and "idsDistinct game" and "noOverlap game"
  shows "\<exists>game'. activeGames (snd (tick rand gameId w)) gameId = Some game' \<and>
           idsDistinct game' \<and> noOverlap game'"
proof (cases "status game = PLAYING")
  case False
  with assms show ?thesis by (simp add: tick_def)
next
  case True
  have "idsDistinct (fst (tickPlayers rand game (randomCalls w))) \<and>
        noOverlap (fst (tickPlayers rand game (randomCalls w)))"
    unfolding tickPlayers_gameBefore
    using gameBefore_invariant [OF assms(2,3), of "length (players game)"] by simp
  then have "idsDistinct (fst (tickGame rand game (randomCalls w))) \<and>
        noOverlap (fst (tickGame rand game (randomCalls w)))"
    by (simp add: idsDistinct_def noOverlap_def tickGame_players)
  with tick_playing_game [OF assms(1) True, of rand] show ?thesis by simp
qed

theorem tick_keeps_cells_apart_witness:
  "activeGames (gameWorld appleGame) ''g'' = Some appleGame \<and>
   idsDistinct appleGame \<and> noOverlap appleGame \<and>
   (\<exists>game'. activeGames (snd (tick drawsCentre ''g'' (gameWorld appleGame))) ''g'' = Some game' \<and>
      idsDistinct game' \<and> noOverlap game')"
proof -
  have h1: "activeGames (gameWorld appleGame) ''g'' = Some appleGame"
    by (simp add: gameWorld_def appleGame_def playingGame_def newGame_def)
  have h2: "idsDistinct appleGame"
    by code_simp
  have h3: "noOverlap appleGame"
    by code_simp
  from tick_keeps_cells_apart [OF h1 h2 h3, where rand = drawsCentre] h1 h2 h3
  show ?thesis by blast
qed

section \<open>Growth\<close>

lemma snakeAfter_alive_length:
  assumes "isAlive (snake p)" and "isAlive (snakeAfter mid p)"
  shows "length (segments (snakeAfter mid p)) =
           (if segments (snake p) \<noteq> [] \<and> newHeadOf (snake p) \<in> set (apples mid)
            then length (segments (snake p)) + 1 else length (segments (snake p)))"
  using assms
  by (auto simp: snakeAfter_def newHeadOf_def Let_def split: list.splits if_splits)

lemma findIndex_Some: "findIndex P as = Some i \<Longrightarrow> i < length as \<and> P (as ! i)"
  by (induction as arbitrary: i) (auto split: if_splits)

lemma set_splice1:
  assumes "i < length as" and "c \<in> set as"
  shows "c \<in> set (splice1 i as) \<or> c = as ! i"
proof -
  have "set as = set (take i as @ as ! i # drop (Suc i) as)"
    using id_take_nth_drop [OF assms(1)] by simp
  with assms(2) show ?thesis by (auto simp: splice1_def)
qed



lemma tickPlayer_apples:
  assumes "i < length (players game)" and "c \<in> set (apples game)"
  shows "c \<in> set (apples (fst (tickPlayer rand i (game, n)))) \<or>
         (isAlive (snakeAfter game (snd (players game ! i))) \<and>
          c \<in> set (segments (snakeAfter game (snd (players game ! i)))))"
proof -
  define player where "player = snd (players game ! i)"
  define s1 where "s1 = (snake player)\<lparr>direction := nextDirection (snake player)\<rparr>"
  have s1: "segments s1 = segments (snake player)" "direction s1 = nextDirection (snake player)"
    by (simp_all add: s1_def)
  have hit: "hitsOtherPlayer player nh (setSnake i s1 game) = hitsOtherPlayer player nh game" for nh
    unfolding player_def by (rule hitsOtherPlayer_setSnake [OF assms(1)])
  show ?thesis
  proof (cases "isAlive (snake player)")
    case False
    then have "apples (fst (tickPlayer rand i (game, n))) = apples game"
      by (simp add: tickPlayer_def player_def)
    with assms(2) show ?thesis by simp
  next
    case alive: True
    show ?thesis
    proof (cases "segments (snake player)")
      case Nil
      with alive have "apples (fst (tickPlayer rand i (game, n))) = apples game"
        by (simp add: tickPlayer_def player_def [symmetric] setSnake_fields)
      with assms(2) show ?thesis by simp
    next
      case (Cons head rest)
      define newHead where "newHead = getNextPosition head (nextDirection (snake player))"
      have unfold: "tickPlayer rand i (game, n) =
          (if isOutOfBounds newHead (gridSize game) then (setSnake i (s1\<lparr>isAlive := False\<rparr>) (setSnake i s1 game), n)
           else if newHead \<in> set (segments (snake player))
           then (setSnake i (s1\<lparr>isAlive := False\<rparr>) (setSnake i s1 game), n)
           else if hitsOtherPlayer player newHead game
           then (setSnake i (s1\<lparr>isAlive := False\<rparr>) (setSnake i s1 game), n)
           else
             (case findIndex (\<lambda>apple. x apple = x newHead \<and> y apple = y newHead) (apples game) of
                Some appleIndex \<Rightarrow>
                  (setSnake i (s1\<lparr>segments := newHead # segments s1\<rparr>)
                     (fst (spawnAppleIn rand ((setSnake i s1 game)\<lparr>apples := splice1 appleIndex (apples game)\<rparr>) n)),
                   snd (spawnAppleIn rand ((setSnake i s1 game)\<lparr>apples := splice1 appleIndex (apples game)\<rparr>) n))
              | None \<Rightarrow>
                  (setSnake i (s1\<lparr>segments := butlast (newHead # segments s1)\<rparr>) (setSnake i s1 game), n)))"
        using alive Cons
        by (simp add: tickPlayer_def player_def [symmetric] s1_def [symmetric] s1 hit
              newHead_def [symmetric] setSnake_fields collidesWithSnake_iff Let_def case_prod_beta
            split: option.split)
      show ?thesis
      proof (cases "findIndex (\<lambda>apple. x apple = x newHead \<and> y apple = y newHead) (apples game)")
        case None
        then have "apples (fst (tickPlayer rand i (game, n))) = apples game"
          unfolding unfold by (simp add: setSnake_fields)
        with assms(2) show ?thesis by simp
      next
        case (Some appleIndex)
        show ?thesis
        proof (cases "isOutOfBounds newHead (gridSize game) \<or> newHead \<in> set (segments (snake player))
            \<or> hitsOtherPlayer player newHead game")
          case True
          then have "apples (fst (tickPlayer rand i (game, n))) = apples game"
            unfolding unfold by (auto simp add: setSnake_fields)
          with assms(2) show ?thesis by simp
        next
          case False
          have idx: "appleIndex < length (apples game)" "apples game ! appleIndex = newHead"
            using findIndex_Some [OF Some] samePos_eq [unfolded samePos_def] by auto
          have inA: "newHead \<in> set (apples game)"
            using idx by (metis nth_mem)
          obtain new where new: "fst (spawnAppleIn rand
              ((setSnake i s1 game)\<lparr>apples := splice1 appleIndex (apples game)\<rparr>) n)
              = ((setSnake i s1 game)\<lparr>apples := splice1 appleIndex (apples game)\<rparr>)
                  \<lparr>apples := apples ((setSnake i s1 game)\<lparr>apples := splice1 appleIndex (apples game)\<rparr>) @ new\<rparr>"
            using spawnAppleIn_result [of rand "(setSnake i s1 game)\<lparr>apples := splice1 appleIndex (apples game)\<rparr>" n]
            by blast
          have after: "apples (fst (tickPlayer rand i (game, n))) = splice1 appleIndex (apples game) @ new"
            unfolding unfold using False Some by (simp add: setSnake_fields new)
          have S: "snakeAfter game player = s1\<lparr>segments := newHead # segments s1\<rparr>"
            using alive Cons False inA
            by (simp add: snakeAfter_def Let_def newHead_def [symmetric] s1_def [symmetric] s1)
          have "isAlive (snakeAfter game player)" "newHead \<in> set (segments (snakeAfter game player))"
            unfolding S using alive by (simp_all add: s1_def)
          with set_splice1 [OF idx(1) assms(2)] idx(2) show ?thesis
            unfolding player_def [symmetric] after by auto
        qed
      qed
    qed
  qed
qed


lemma gameBefore_apples:
  assumes "c \<in> set (apples game)"
  shows "k \<le> length (players game) \<Longrightarrow>
         c \<in> set (apples (fst (gameBefore rand k game n))) \<or>
         (\<exists>j < k. isAlive (snake (snd (players (fst (gameBefore rand k game n)) ! j))) \<and>
                  c \<in> set (segments (snake (snd (players (fst (gameBefore rand k game n)) ! j)))))"
proof (induction k)
  case 0
  with assms show ?case by (simp add: gameBefore_0)
next
  case (Suc k)
  define mid where "mid = gameBefore rand k game n"
  define mid' where "mid' = tickPlayer rand k mid"
  have k: "k < length (players (fst mid))"
    using Suc.prems by (simp add: mid_def gameBefore_length)
  have ps: "players (fst mid') = (players (fst mid))[k := (fst (players (fst mid) ! k),
              (snd (players (fst mid) ! k))\<lparr>snake := snakeAfter (fst mid) (snd (players (fst mid) ! k))\<rparr>)]"
    unfolding mid'_def by (rule tickPlayer_players' [OF k])
  from Suc have IH: "c \<in> set (apples (fst mid)) \<or>
         (\<exists>j < k. isAlive (snake (snd (players (fst mid) ! j))) \<and>
                  c \<in> set (segments (snake (snd (players (fst mid) ! j)))))"
    by (simp add: mid_def)
  have "c \<in> set (apples (fst mid')) \<or>
         (\<exists>j < Suc k. isAlive (snake (snd (players (fst mid') ! j))) \<and>
                  c \<in> set (segments (snake (snd (players (fst mid') ! j)))))"
  proof (cases "c \<in> set (apples (fst mid))")
    case True
    from tickPlayer_apples [OF k True, of rand "snd mid"]
    have "c \<in> set (apples (fst mid')) \<or>
         (isAlive (snakeAfter (fst mid) (snd (players (fst mid) ! k))) \<and>
          c \<in> set (segments (snakeAfter (fst mid) (snd (players (fst mid) ! k)))))"
      by (simp add: mid'_def)
    then show ?thesis
    proof
      assume "c \<in> set (apples (fst mid'))"
      then show ?thesis by simp
    next
      assume "isAlive (snakeAfter (fst mid) (snd (players (fst mid) ! k))) \<and>
          c \<in> set (segments (snakeAfter (fst mid) (snd (players (fst mid) ! k))))"
      then have "isAlive (snake (snd (players (fst mid') ! k))) \<and>
                  c \<in> set (segments (snake (snd (players (fst mid') ! k))))"
        using k by (simp add: ps)
      then show ?thesis by blast
    qed
  next
    case False
    with IH obtain j where j: "j < k" "isAlive (snake (snd (players (fst mid) ! j)))"
        "c \<in> set (segments (snake (snd (players (fst mid) ! j))))"
      by blast
    then have "players (fst mid') ! j = players (fst mid) ! j"
      by (simp add: ps)
    with j have "j < Suc k \<and> isAlive (snake (snd (players (fst mid') ! j))) \<and>
                  c \<in> set (segments (snake (snd (players (fst mid') ! j))))"
      by simp
    then show ?thesis by blast
  qed
  then show ?case
    by (simp add: mid'_def mid_def gameBefore_Suc)
qed

lemma gameBefore_ids:
  "i \<le> length (players game) \<Longrightarrow>
   map (\<lambda>(k, p). id_player p) (players (fst (gameBefore rand i game n)))
   = map (\<lambda>(k, p). id_player p) (players game)"
  by (induction i)
     (simp_all add: gameBefore_0 gameBefore_Suc tickPlayer_players' gameBefore_length ids_update)

lemma pre_tick_apple_still_there:
  assumes i: "i < length (players game)" and ids: "idsDistinct game"
    and p: "players game ! i = (k, p)" and alive: "isAlive (snake p)"
    and segs: "segments (snake p) \<noteq> []"
    and apple: "newHeadOf (snake p) \<in> set (apples game)"
    and after: "isAlive (snakeAfter (fst (gameBefore rand i game n)) p)"
  shows "newHeadOf (snake p) \<in> set (apples (fst (gameBefore rand i game n)))"
proof (rule ccontr)
  define mid where "mid = fst (gameBefore rand i game n)"
  assume "newHeadOf (snake p) \<notin> set (apples (fst (gameBefore rand i game n)))"
  with gameBefore_apples [OF apple, of i rand n] i
  obtain j where j: "j < i" "isAlive (snake (snd (players mid ! j)))"
      "newHeadOf (snake p) \<in> set (segments (snake (snd (players mid ! j))))"
    unfolding mid_def by auto
  have len: "length (players mid) = length (players game)"
    using i by (simp add: mid_def gameBefore_length)
  have idm: "map (\<lambda>(k, p). id_player p) (players mid) = map (\<lambda>(k, p). id_player p) (players game)"
    using i by (simp add: mid_def gameBefore_ids)
  have d: "distinct (map (\<lambda>(k, p). id_player p) (players mid))"
    using ids unfolding idm by (simp add: idsDistinct_def)
  have pi: "players mid ! i = (k, p)"
    using i p by (simp add: mid_def gameBefore_later)
  have ji: "j \<noteq> i" "j < length (players mid)" "i < length (players mid)"
    using j(1) i len by simp_all
  have "(map (\<lambda>(k, p). id_player p) (players mid) ! j = map (\<lambda>(k, p). id_player p) (players mid) ! i)
        = (j = i)"
    using d ji(2,3) by (intro nth_eq_iff_index_eq) simp_all
  with ji(1) have "map (\<lambda>(k, p). id_player p) (players mid) ! j
        \<noteq> map (\<lambda>(k, p). id_player p) (players mid) ! i"
    by blast
  then have "id_player (snd (players mid ! j)) \<noteq> id_player p"
    using ji(2,3) pi by (simp add: case_prod_beta)
  with j i len have "hitsOtherPlayer p (newHeadOf (snake p)) mid"
    unfolding hitsOtherPlayer_nth by (intro exI [of _ j]) simp
  with alive segs have "\<not> isAlive (snakeAfter mid p)"
    by (auto simp: snakeAfter_def newHeadOf_def Let_def split: list.splits)
  with after show False by (simp add: mid_def)
qed

text \<open>
  C3 as stated fails when the apples are those of the start of the tick: the loop
  handles the snakes one after the other, and a snake may land on an apple that was
  spawned earlier in the same tick. In \<open>appleGame\<close> the only apple is on \<open>(6,5)\<close>; \<open>A\<close>
  eats it, the replacement is drawn on \<open>(14,15)\<close>, and \<open>B\<close>, handled after \<open>A\<close>, moves
  onto \<open>(14,15)\<close>: its new head is on no apple of the start of the tick, it survives,
  and it has five segments instead of four.
\<close>

theorem tick_segment_count_pre_tick_counterexample:
  "status appleGame = PLAYING \<and>
   apples appleGame = [\<lparr> x = 6, y = 5 \<rparr>] \<and>
   aliveFlags appleGame = [True, True] \<and>
   newHeadOf (snake (snd (players appleGame ! 1))) = \<lparr> x = 14, y = 15 \<rparr> \<and>
   \<lparr> x = 14, y = 15 \<rparr> \<notin> set (apples appleGame) \<and>
   length (segments (snake (snd (players appleGame ! 1)))) = 4 \<and>
   map_option aliveFlags (activeGames (snd (tick drawsLeftOfB ''g'' (gameWorld appleGame))) ''g'')
     = Some [True, True] \<and>
   map_option (map length \<circ> segmentLists)
       (activeGames (snd (tick drawsLeftOfB ''g'' (gameWorld appleGame))) ''g'')
     = Some [5, 5]"
  by code_simp

text \<open>
  C3, amended. For a tick of a match in \<open>PLAYING\<close> and a snake that is alive before the
  tick and after it: the snake has one segment more when its new head is the position
  of an apple in the list as it stands when the loop reaches the snake (\<open>gameBefore\<close>:
  the list of the start of the tick, without the apples eaten and with the replacements
  spawned by the snakes handled earlier in this tick), and as many segments as before
  otherwise. For the first snake handled that list is the one of the start of the
  tick. For every snake, when the players carry different identifiers, a new head on
  an apple of the start of the tick gives one segment more. A snake without segments
  has no new head and keeps its count.
\<close>

theorem tick_segment_count:
  assumes "activeGames w gameId = Some game" and "status game = PLAYING"
    and "i < length (players game)" and "players game ! i = (k, p)" and "isAlive (snake p)"
    and "activeGames (snd (tick rand gameId w)) gameId = Some game'"
    and "players game' ! i = (k', p')" and "isAlive (snake p')"
  shows "length (segments (snake p')) =
           (if segments (snake p) \<noteq> [] \<and>
               newHeadOf (snake p) \<in> set (apples (fst (gameBefore rand i game (randomCalls w))))
            then length (segments (snake p)) + 1 else length (segments (snake p))) \<and>
         (i = 0 \<longrightarrow> apples (fst (gameBefore rand i game (randomCalls w))) = apples game) \<and>
         (idsDistinct game \<and> segments (snake p) \<noteq> [] \<and> newHeadOf (snake p) \<in> set (apples game)
            \<longrightarrow> length (segments (snake p')) = length (segments (snake p)) + 1)"
proof -
  define mid where "mid = fst (gameBefore rand i game (randomCalls w))"
  have "game' = fst (tickGame rand game (randomCalls w))"
    using tick_playing_game [OF assms(1,2), of rand] assms(6) by simp
  then have "players game' ! i = (k, p\<lparr>snake := snakeAfter mid p\<rparr>)"
    using tickPlayers_nth [OF assms(3), of rand "randomCalls w"] assms(4)
    by (simp add: tickGame_players mid_def)
  with assms(7) have p': "snake p' = snakeAfter mid p" by auto
  have count: "length (segments (snake p')) =
           (if segments (snake p) \<noteq> [] \<and> newHeadOf (snake p) \<in> set (apples mid)
            then length (segments (snake p)) + 1 else length (segments (snake p)))"
    using snakeAfter_alive_length [OF assms(5), of mid] assms(8) unfolding p' by simp
  have first: "i = 0 \<longrightarrow> apples mid = apples game"
    by (simp add: mid_def gameBefore_0)
  have pre: "length (segments (snake p')) = length (segments (snake p)) + 1"
    if "idsDistinct game" and "segments (snake p) \<noteq> []" and "newHeadOf (snake p) \<in> set (apples game)"
  proof -
    have "newHeadOf (snake p) \<in> set (apples mid)"
      unfolding mid_def
      using pre_tick_apple_still_there [OF assms(3) that(1) assms(4,5) that(2,3), of rand "randomCalls w"]
        assms(8) p' by (simp add: mid_def)
    with count that(2) show ?thesis by simp
  qed
  from count first pre show ?thesis
    unfolding mid_def by blast
qed


theorem tick_segment_count_witness:
  "activeGames (gameWorld appleGame) ''g'' = Some appleGame \<and> status appleGame = PLAYING \<and>
   activeGames (snd (tick drawsLeftOfB ''g'' (gameWorld appleGame))) ''g''
     = Some (fst (tickGame drawsLeftOfB appleGame 0)) \<and>
   1 < length (players appleGame) \<and> players appleGame ! 1 = (''B'', playerB) \<and>
   isAlive (snake playerB) \<and>
   isAlive (snake (snd (players (fst (tickGame drawsLeftOfB appleGame 0)) ! 1))) \<and>
   segments (snake playerB) \<noteq> [] \<and>
   newHeadOf (snake playerB) \<notin> set (apples appleGame) \<and>
   newHeadOf (snake playerB) \<in> set (apples (fst (gameBefore drawsLeftOfB 1 appleGame 0))) \<and>
   length (segments (snake playerB)) = 4 \<and>
   length (segments (snake (snd (players (fst (tickGame drawsLeftOfB appleGame 0)) ! 1)))) = 5 \<and>
   0 < length (players appleGame) \<and> players appleGame ! 0 = (''A'', playerA) \<and>
   isAlive (snake playerA) \<and>
   isAlive (snake (snd (players (fst (tickGame drawsLeftOfB appleGame 0)) ! 0))) \<and>
   idsDistinct appleGame \<and> segments (snake playerA) \<noteq> [] \<and>
   newHeadOf (snake playerA) \<in> set (apples appleGame) \<and>
   apples (fst (gameBefore drawsLeftOfB 0 appleGame 0)) = apples appleGame \<and>
   length (segments (snake playerA)) = 4 \<and>
   length (segments (snake (snd (players (fst (tickGame drawsLeftOfB appleGame 0)) ! 0)))) = 5"
proof -
  define after where "after = fst (tickGame drawsLeftOfB appleGame 0)"
  have h1: "activeGames (gameWorld appleGame) ''g'' = Some appleGame"
    by (simp add: gameWorld_def appleGame_def playingGame_def newGame_def)
  have h2: "status appleGame = PLAYING"
    by (simp add: appleGame_def playingGame_def)
  have n: "randomCalls (gameWorld appleGame) = 0"
    by (simp add: gameWorld_def)
  have h6: "activeGames (snd (tick drawsLeftOfB ''g'' (gameWorld appleGame))) ''g'' = Some after"
    using tick_playing_game [OF h1 h2, of drawsLeftOfB] n by (simp add: after_def)
  have b3: "1 < length (players appleGame)"
    by (simp add: appleGame_def playingGame_def)
  have b4: "players appleGame ! 1 = (''B'', playerB)"
    by (simp add: appleGame_def playingGame_def)
  have b5: "isAlive (snake playerB)"
    by (simp add: playerB_def entryPlayer_def createInitialSnake_def)
  have b7: "players after ! 1 = (fst (players after ! 1), snd (players after ! 1))"
    by simp
  have b8: "isAlive (snake (snd (players after ! 1)))"
    unfolding after_def by code_simp
  have bs: "segments (snake playerB) \<noteq> []"
    by code_simp
  have bn: "newHeadOf (snake playerB) \<notin> set (apples appleGame)"
    by code_simp
  have bm: "newHeadOf (snake playerB) \<in> set (apples (fst (gameBefore drawsLeftOfB 1 appleGame 0)))"
    by code_simp
  have bl: "length (segments (snake playerB)) = 4"
    by code_simp
  have B: "length (segments (snake (snd (players after ! 1)))) = 5"
    using tick_segment_count [OF h1 h2 b3 b4 b5 h6 b7 b8] bs bm bl unfolding n by simp
  have a3: "0 < length (players appleGame)"
    by (simp add: appleGame_def playingGame_def)
  have a4: "players appleGame ! 0 = (''A'', playerA)"
    by (simp add: appleGame_def playingGame_def)
  have a5: "isAlive (snake playerA)"
    by (simp add: playerA_def entryPlayer_def createInitialSnake_def)
  have a7: "players after ! 0 = (fst (players after ! 0), snd (players after ! 0))"
    by simp
  have a8: "isAlive (snake (snd (players after ! 0)))"
    unfolding after_def by code_simp
  have ai: "idsDistinct appleGame"
    by code_simp
  have as: "segments (snake playerA) \<noteq> []"
    by code_simp
  have an: "newHeadOf (snake playerA) \<in> set (apples appleGame)"
    by code_simp
  have al: "length (segments (snake playerA)) = 4"
    by code_simp
  have A: "length (segments (snake (snd (players after ! 0)))) = 5"
    and A0: "apples (fst (gameBefore drawsLeftOfB 0 appleGame 0)) = apples appleGame"
    using tick_segment_count [OF h1 h2 a3 a4 a5 h6 a7 a8] ai as an al unfolding n by simp_all
  from h1 h2 h6 b3 b4 b5 b8 bs bn bm bl B a3 a4 a5 a8 ai as an A0 al A show ?thesis
    unfolding after_def by blast
qed

text \<open>
  The scenario of the specification, run on the code: the snake on \<open>(5,5)..(2,5)\<close>
  moves right onto the apple on \<open>(6,5)\<close>; after the tick it has the five segments
  \<open>(6,5)..(2,5)\<close> and the apple list holds the replacement only.
\<close>

lemma tick_eats_apple_scenario:
  "map_option segmentLists (activeGames (snd (tick drawsCentre ''g'' (gameWorld appleGame))) ''g'')
     = Some [\<lparr> x = 6, y = 5 \<rparr> # rowLeft 5 5, map (\<lambda>i. \<lparr> x = 14 + int i, y = 15 \<rparr>) [0..<4]] \<and>
   map_option apples (activeGames (snd (tick drawsCentre ''g'' (gameWorld appleGame))) ''g'')
     = Some [\<lparr> x = 10, y = 10 \<rparr>]"
  by code_simp

section \<open>Eating an apple\<close>

text \<open>
  C8. \<open>tick\<close> calls \<open>spawnApple\<close> before it puts the new head on the snake, and after
  it has taken the eaten apple off the list: the cell of the eaten apple is then
  neither under a segment nor under an apple, and the draw may pick it. In this run
  from the empty state the match starts with apples on \<open>(6,5)\<close> and \<open>(10,10)\<close>; in
  the first tick \<open>A\<close> eats the apple on \<open>(6,5)\<close> and the replacement is drawn on
  \<open>(6,5)\<close>: after the tick the position of the eaten apple is in the apple list,
  under the head of \<open>A\<close>.
\<close>

theorem tick_respawns_under_new_head:
  "map_option apples (activeGames startedWorld ''g'')
     = Some [\<lparr> x = 6, y = 5 \<rparr>, \<lparr> x = 10, y = 10 \<rparr>] \<and>
   map_option status (activeGames startedWorld ''g'') = Some PLAYING \<and>
   map_option segmentLists (activeGames startedWorld ''g'')
     = Some [rowLeft 5 5, map (\<lambda>i. \<lparr> x = 15 + int i, y = 15 \<rparr>) [0..<4]] \<and>
   map_option apples (activeGames tickedWorld ''g'')
     = Some [\<lparr> x = 10, y = 10 \<rparr>, \<lparr> x = 6, y = 5 \<rparr>] \<and>
   map_option segmentLists (activeGames tickedWorld ''g'')
     = Some [\<lparr> x = 6, y = 5 \<rparr> # rowLeft 5 5, map (\<lambda>i. \<lparr> x = 14 + int i, y = 15 \<rparr>) [0..<4]] \<and>
   map_option aliveFlags (activeGames tickedWorld ''g'') = Some [True, True]"
  by code_simp

section \<open>Reachable states\<close>

text \<open>
  The hypotheses of the theorems above that are not part of the specification's
  sentences (the queue holds no player twice, the players of a match carry different
  identifiers, a match in \<open>PLAYING\<close> has no winner) hold in every reachable state.
\<close>

lemma wellKeyed_idsDistinct: "wellKeyed game \<Longrightarrow> idsDistinct game"
proof -
  assume wk: "wellKeyed game"
  then have "map (\<lambda>(k, p). id_player p) (players game) = map fst (players game)"
    by (auto simp: wellKeyed_def list_all_iff)
  with wk show ?thesis by (simp only: idsDistinct_def wellKeyed_def)
qed

lemma list_all_update:
  "list_all P al \<Longrightarrow> P (k, v) \<Longrightarrow> list_all P (AList.update k v al)"
  by (induction al) auto

lemma list_all_delete: "list_all P al \<Longrightarrow> list_all P (AList.delete k al)"
  by (induction al) auto

lemma wellKeyed_update:
  assumes "wellKeyed game" and "id_player player = pid"
  shows "wellKeyed (game\<lparr>players := AList.update pid player (players game)\<rparr>)"
  using assms by (simp add: wellKeyed_def distinct_update list_all_update)

lemma wellKeyed_delete:
  assumes "wellKeyed game"
  shows "wellKeyed (game\<lparr>players := AList.delete pid (players game)\<rparr>)"
  using assms by (simp add: wellKeyed_def distinct_delete list_all_delete)

lemma wellKeyed_lookup:
  assumes "wellKeyed game" and "map_of (players game) pid = Some player"
  shows "id_player player = pid"
proof -
  have "(pid, player) \<in> set (players game)"
    using assms(2) by (rule map_of_SomeD)
  moreover have "\<forall>e \<in> set (players game). id_player (snd e) = fst e"
    using assms(1) by (simp add: wellKeyed_def list_all_iff case_prod_beta)
  ultimately show ?thesis by fastforce
qed

lemma gameInv_newGame: "gameInv (newGame gameId)"
  by (simp add: gameInv_def wellKeyed_def newGame_def)

lemma gameInv_players:
  assumes "gameInv game" and "wellKeyed (game\<lparr>players := ps\<rparr>)"
  shows "gameInv (game\<lparr>players := ps\<rparr>)"
  using assms by (simp add: gameInv_def)

lemma gameInv_spawnAppleIn:
  assumes "gameInv game"
  shows "gameInv (fst (spawnAppleIn rand game n))"
  using assms by (simp add: gameInv_def wellKeyed_def spawnAppleIn_fields)

lemma tickGame_keys:
  "map (\<lambda>e. (fst e, id_player (snd e))) (players (fst (tickGame rand game n)))
   = map (\<lambda>e. (fst e, id_player (snd e))) (players game)"
  by (rule nth_equalityI)
     (simp_all add: tickGame_players tickPlayers_length tickPlayers_nth)

lemma wellKeyed_keys:
  "wellKeyed game \<longleftrightarrow>
     distinct (map fst (map (\<lambda>e. (fst e, id_player (snd e))) (players game))) \<and>
     list_all (\<lambda>(k, i). i = k) (map (\<lambda>e. (fst e, id_player (snd e))) (players game))"
  by (simp add: wellKeyed_def list_all_iff case_prod_beta comp_def)

lemma gameInv_tickGame:
  assumes "gameInv game" and "status game = PLAYING"
  shows "gameInv (fst (tickGame rand game n))"
proof -
  have "wellKeyed (fst (tickGame rand game n))"
    using assms(1) unfolding gameInv_def wellKeyed_keys tickGame_keys by simp
  moreover have "status (fst (tickGame rand game n)) \<noteq> FINISHED \<longrightarrow>
      winnerId (fst (tickGame rand game n)) = None"
    using assms
    by (simp add: gameInv_def tickGame_def case_prod_beta checkGameOver_def tickPlayers_fields
        split: list.split)
  ultimately show ?thesis by (simp add: gameInv_def)
qed

lemma worldInv_initial:
  "worldInv \<lparr> activeGames = Map.empty, waitingPlayers = [], randomCalls = 0 \<rparr>"
  by (simp add: worldInv_def)

lemma worldInv_createGame: "worldInv w \<Longrightarrow> worldInv (snd (createGame gameId w))"
  by (simp add: worldInv_def createGame_def Let_def gameInv_newGame)

lemma worldInv_deleteGame: "worldInv w \<Longrightarrow> worldInv (deleteGame gameId w)"
  by (simp add: worldInv_def deleteGame_def)

lemma worldInv_addPlayer: "worldInv w \<Longrightarrow> worldInv (snd (addPlayer gameId pid sid uname w))"
  by (auto simp: worldInv_def addPlayer_def Let_def gameInv_players wellKeyed_update gameInv_def
      split: option.splits if_splits)

lemma worldInv_removePlayer: "worldInv w \<Longrightarrow> worldInv (removePlayer gameId pid w)"
  by (auto simp: worldInv_def removePlayer_def deleteGame_def Let_def gameInv_def wellKeyed_delete
      split: option.splits if_splits)

lemma worldInv_spawnApple: "worldInv w \<Longrightarrow> worldInv (spawnApple rand gameId w)"
  by (auto simp: worldInv_def spawnApple_def case_prod_beta gameInv_spawnAppleIn
      split: option.splits if_splits)

lemma worldInv_startGame: "worldInv w \<Longrightarrow> worldInv (startGame rand gameId w)"
proof -
  assume inv: "worldInv w"
  show ?thesis
  proof (cases "activeGames w gameId")
    case None
    with inv show ?thesis by (simp add: startGame_def)
  next
    case (Some game)
    show ?thesis
    proof (cases "status game = WAITING")
      case False
      with inv Some show ?thesis by (simp add: startGame_def)
    next
      case True
      have "worldInv (w\<lparr>activeGames := (activeGames w)(gameId \<mapsto> game\<lparr>status := PLAYING\<rparr>)\<rparr>)"
        using inv Some True by (auto simp: worldInv_def gameInv_def wellKeyed_def)
      then show ?thesis
        using Some True by (simp add: startGame_def Let_def worldInv_spawnApple)
    qed
  qed
qed

lemma worldInv_changeDirection: "worldInv w \<Longrightarrow> worldInv (changeDirection gameId pid d w)"
proof -
  assume inv: "worldInv w"
  have "gameInv (game\<lparr>players := AList.update pid
            (player\<lparr>snake := (snake player)\<lparr>nextDirection := d\<rparr>\<rparr>) (players game)\<rparr>)"
    if "activeGames w gameId = Some game" and "map_of (players game) pid = Some player"
    for game player
  proof -
    from inv that(1) have g: "gameInv game" by (simp add: worldInv_def)
    then have "id_player player = pid"
      using wellKeyed_lookup [OF _ that(2)] by (simp add: gameInv_def)
    with g show ?thesis
      by (intro gameInv_players wellKeyed_update) (simp_all add: gameInv_def)
  qed
  with inv show ?thesis
    by (auto simp: worldInv_def changeDirection_def Let_def split: option.splits if_splits)
qed

lemma worldInv_tick: "worldInv w \<Longrightarrow> worldInv (snd (tick rand gameId w))"
  by (auto simp: worldInv_def tick_def case_prod_beta gameInv_tickGame
      split: option.splits if_splits)

lemma worldInv_leaveQueue: "worldInv w \<Longrightarrow> worldInv (leaveQueue pid w)"
  by (simp add: worldInv_def leaveQueue_def removeEntry_distinct)

lemma worldInv_findMatch: "worldInv w \<Longrightarrow> worldInv (snd (findMatch gameId pid sid uname w))"
proof -
  assume inv: "worldInv w"
  then have q: "distinct (map playerId (waitingPlayers w))" by (simp add: worldInv_def)
  show ?thesis
  proof (cases "removeEntry pid (waitingPlayers w)")
    case Nil
    with inv show ?thesis by (simp add: findMatch_queued worldInv_def)
  next
    case (Cons opponent rest)
    have d: "distinct (map playerId (opponent # rest))"
      using removeEntry_distinct [OF q, of pid] Cons by simp
    have "pid \<notin> playerId ` set (opponent # rest)"
      using removeEntry_absent [OF q, of pid] Cons by simp
    then have ne: "playerId opponent \<noteq> pid" by auto
    have "gameInv ((newGame gameId)\<lparr>players :=
                   [(playerId opponent, entryPlayer opponent 0),
                    (pid, entryPlayer \<lparr>playerId = pid, socketId_w = sid,
                            username_w = (case uname of None \<Rightarrow> [] | Some u \<Rightarrow> u)\<rparr> 1)]\<rparr>)"
      using ne by (simp add: gameInv_def wellKeyed_def newGame_def entryPlayer_def)
    with inv d show ?thesis
      by (simp add: findMatch_paired [OF Cons ne] worldInv_def)
  qed
qed

lemma reachable_worldInv: "reachable rand w \<Longrightarrow> worldInv w"
  by (induction rule: reachable.induct)
     (simp_all add: worldInv_initial worldInv_createGame worldInv_deleteGame worldInv_addPlayer
        worldInv_removePlayer worldInv_startGame worldInv_changeDirection worldInv_tick
        worldInv_findMatch worldInv_leaveQueue)

lemma reachable_hypotheses:
  assumes "reachable rand w"
  shows "distinct (map playerId (waitingPlayers w))"
    and "activeGames w gameId = Some game \<Longrightarrow> idsDistinct game"
    and "activeGames w gameId = Some game \<Longrightarrow> status game = PLAYING \<Longrightarrow> winnerId game = None"
proof -
  have inv: "worldInv w"
    using assms by (rule reachable_worldInv)
  then show "distinct (map playerId (waitingPlayers w))"
    by (simp add: worldInv_def)
  show "idsDistinct game" if "activeGames w gameId = Some game"
    using inv that by (simp add: worldInv_def gameInv_def wellKeyed_idsDistinct)
  show "winnerId game = None" if "activeGames w gameId = Some game" and "status game = PLAYING"
    using inv that by (simp add: worldInv_def gameInv_def)
qed

text \<open>The run in which the eaten apple comes back under the head is a reachable one.\<close>

lemma tickedWorld_reachable: "reachable drawsAhead tickedWorld"
  unfolding tickedWorld_def startedWorld_def matchedWorld_def queueWorld_def
  by (intro reachable.intros)

end
